theory Spec2Isabelle
  imports Complex_Main "HOL-Library.Multiset" "HOL-Library.Log_Nat"
begin

section \<open>Strings of the JavaScript runtime\<close>

text \<open>
  A JavaScript string is a sequence of UTF-16 code units. It is modelled as a list of
  natural numbers, one per code unit; \<open>js\<close> turns an ASCII literal into that form.
  \<open>is_ws\<close> is the set matched by \<^verbatim>\<open>\s\<close> and removed by \<^verbatim>\<open>String.prototype.trim\<close>
  (ECMAScript WhiteSpace and LineTerminator).
\<close>

type_synonym jsstring = "nat list"

definition js :: "string \<Rightarrow> jsstring" where
  "js s = map of_char s"

definition is_ws :: "nat \<Rightarrow> bool" where
  "is_ws c \<longleftrightarrow>
     c = 9 \<or> c = 10 \<or> c = 11 \<or> c = 12 \<or> c = 13 \<or> c = 32 \<or> c = 160 \<or> c = 5760 \<or>
     (8192 \<le> c \<and> c \<le> 8202) \<or> c = 8232 \<or> c = 8233 \<or> c = 8239 \<or> c = 8287 \<or>
     c = 12288 \<or> c = 65279"

definition trim :: "jsstring \<Rightarrow> jsstring" where
  "trim s = rev (dropWhile is_ws (rev (dropWhile is_ws s)))"

text \<open>
  \<^verbatim>\<open>s.split(re)\<close> for a regular expression \<open>re\<close> that matches exactly one code unit of a
  class \<open>sep\<close>: the fragments between the separators, the empty ones included.
\<close>

fun split_on :: "(nat \<Rightarrow> bool) \<Rightarrow> jsstring \<Rightarrow> jsstring list" where
  "split_on sep [] = [[]]"
| "split_on sep (c # cs) =
     (if sep c then [] # split_on sep cs
      else (case split_on sep cs of
              [] \<Rightarrow> [[c]]
            | f # fs \<Rightarrow> (c # f) # fs))"

text \<open>\<^verbatim>\<open>xs.join(sep)\<close> on an array of strings.\<close>

fun join :: "jsstring \<Rightarrow> jsstring list \<Rightarrow> jsstring" where
  "join sep [] = []"
| "join sep [x] = x"
| "join sep (x # y # ys) = x @ sep @ join sep (y # ys)"

section \<open>Constants and the cache key deriver\<close>

text \<open>
  \<^verbatim>\<open>constants.ts\<close> reads the platform and the home directory from \<^verbatim>\<open>os\<close>, and the cache
  service reads the commit from \<^verbatim>\<open>github.context.sha\<close>. These values of the runner are
  the fields of \<open>env\<close>. The three entries of \<^verbatim>\<open>CACHE_PATHS\<close> are the results of
  \<^verbatim>\<open>path.join(HOME, '.foundry/cache/...')\<close>; they are fields as well, since
  \<^verbatim>\<open>path.join\<close> belongs to the runtime.
\<close>

record env =
  PLATFORM :: jsstring
  sha :: jsstring
  CACHE_PATHS_RPC :: jsstring
  CACHE_PATHS_ARTIFACTS :: jsstring
  CACHE_PATHS_GAS_SNAPSHOTS :: jsstring

definition CACHE_PREFIX :: "env \<Rightarrow> jsstring" where
  "CACHE_PREFIX e = PLATFORM e @ js ''-foundry-''"

definition RPC_CACHE_PREFIX :: "env \<Rightarrow> jsstring" where
  "RPC_CACHE_PREFIX e = CACHE_PREFIX e @ js ''chain-fork-''"

definition ARTIFACTS_CACHE_PREFIX :: "env \<Rightarrow> jsstring" where
  "ARTIFACTS_CACHE_PREFIX e = CACHE_PREFIX e @ js ''artifacts-''"

definition GAS_SNAPSHOT_CACHE_PREFIX :: "env \<Rightarrow> jsstring" where
  "GAS_SNAPSHOT_CACHE_PREFIX e = CACHE_PREFIX e @ js ''gas-snapshot-''"

datatype CacheType = RPC | ARTIFACTS | GAS_SNAPSHOT

fun getCachePrefix :: "env \<Rightarrow> CacheType \<Rightarrow> jsstring" where
  "getCachePrefix e RPC = RPC_CACHE_PREFIX e"
| "getCachePrefix e ARTIFACTS = ARTIFACTS_CACHE_PREFIX e"
| "getCachePrefix e GAS_SNAPSHOT = GAS_SNAPSHOT_CACHE_PREFIX e"

fun getCachePaths :: "env \<Rightarrow> CacheType \<Rightarrow> jsstring list" where
  "getCachePaths e RPC = [CACHE_PATHS_RPC e]"
| "getCachePaths e ARTIFACTS = [CACHE_PATHS_ARTIFACTS e]"
| "getCachePaths e GAS_SNAPSHOT = [CACHE_PATHS_GAS_SNAPSHOTS e]"

text \<open>
  An optional string argument is \<open>None\<close> for \<^verbatim>\<open>undefined\<close>. The test
  \<^verbatim>\<open>!customKeyInput\<close> holds for \<^verbatim>\<open>undefined\<close> and for the empty string.
\<close>

definition getPrimaryKey :: "env \<Rightarrow> jsstring option \<Rightarrow> CacheType \<Rightarrow> jsstring" where
  "getPrimaryKey e customKeyInput type =
     (let prefix = getCachePrefix e type in
      case customKeyInput of
        None \<Rightarrow> prefix @ sha e
      | Some k \<Rightarrow> if k = [] then prefix @ sha e else prefix @ trim k)"

definition is_crlf :: "nat \<Rightarrow> bool" where
  "is_crlf c \<longleftrightarrow> c = 13 \<or> c = 10"

definition getRestoreKeys :: "env \<Rightarrow> jsstring option \<Rightarrow> CacheType \<Rightarrow> jsstring list" where
  "getRestoreKeys e customRestoreKeysInput type =
     (let prefix = getCachePrefix e type;
          defaultRestoreKeys = [prefix]
      in case customRestoreKeysInput of
           None \<Rightarrow> defaultRestoreKeys
         | Some s \<Rightarrow>
             if s = [] then defaultRestoreKeys
             else
               (let restoreKeys =
                      map (\<lambda>input. prefix @ input)
                        (filter (\<lambda>input. input \<noteq> [])
                          (map (\<lambda>input. trim input) (split_on is_crlf s)))
                in restoreKeys @ defaultRestoreKeys))"

text \<open>A runner used in the worked examples.\<close>

definition linux_env :: env where
  "linux_env =
     \<lparr> PLATFORM = js ''linux'',
       sha = js ''0123abcd'',
       CACHE_PATHS_RPC = js ''/home/user/.foundry/cache/rpc'',
       CACHE_PATHS_ARTIFACTS = js ''/home/user/.foundry/cache/artifacts'',
       CACHE_PATHS_GAS_SNAPSHOTS = js ''/home/user/.foundry/cache/gas-snapshots'' \<rparr>"

section \<open>Cache lifecycle\<close>

text \<open>
  The run state of \<^verbatim>\<open>@actions/core\<close> (\<^verbatim>\<open>saveState\<close>, \<^verbatim>\<open>getState\<close>) is a table from the
  three keys of the enum \<^verbatim>\<open>State\<close> to strings; \<^verbatim>\<open>getState\<close> yields the empty string for a
  key that was never saved. The field \<^verbatim>\<open>primaryKey\<close> of \<^verbatim>\<open>CacheOptions\<close> is \<open>primaryKey_in\<close>
  here, the name \<open>primaryKey\<close> being the field of \<^verbatim>\<open>CacheResult\<close>; for the same reason the
  local constants of the two operations are \<open>pk\<close>, \<open>rks\<close> and \<open>mk\<close>.
\<close>

datatype State = CachePrimaryKey | CacheMatchedKey | GasSnapshotKey

record CacheOptions =
  enabled :: bool
  primaryKey_in :: "jsstring option"
  restoreKeys :: "jsstring list option"
  paths :: "jsstring list option"
  compressionLevel :: "int option"

record CacheResult =
  primaryKey :: jsstring
  matchedKey :: "jsstring option"
  cacheHit :: bool

text \<open>
  The part of the world the cache service touches: the run state, which paths
  \<^verbatim>\<open>fs.existsSync\<close> finds, and the calls made so far to the store (\<^verbatim>\<open>@actions/cache\<close>),
  oldest first. Log lines written through \<^verbatim>\<open>core.info\<close>, \<^verbatim>\<open>core.debug\<close> and
  \<^verbatim>\<open>core.warning\<close> are not part of the model, and neither are the files the store
  unpacks on a restore: the theorems about a save after a restore hold for every
  state of the disk at the time of the save.
\<close>

datatype store_call =
    RestoreCall "jsstring list" jsstring "jsstring list"
  | SaveCall "jsstring list" jsstring

record world =
  run_state :: "State \<Rightarrow> jsstring option"
  existsSync :: "jsstring \<Rightarrow> bool"
  store_calls :: "store_call list"

text \<open>
  What the collaborators answer: whether \<^verbatim>\<open>fs.mkdirSync\<close> throws on a path, and what the
  store does on a restore (a matched key, \<^verbatim>\<open>undefined\<close>, or an exception) and on a save
  (a cache id, or an exception).
\<close>

datatype restore_response = RestoreReturns "jsstring option" | RestoreThrows

datatype save_response = SaveReturns int | SaveThrows

record external =
  mkdirSync_throws :: "jsstring \<Rightarrow> bool"
  cache_restoreCache :: "jsstring list \<Rightarrow> jsstring \<Rightarrow> jsstring list \<Rightarrow> restore_response"
  cache_saveCache :: "jsstring list \<Rightarrow> jsstring \<Rightarrow> save_response"

definition saveState :: "world \<Rightarrow> State \<Rightarrow> jsstring \<Rightarrow> world" where
  "saveState w name v = w\<lparr>run_state := (run_state w)(name \<mapsto> v)\<rparr>"

definition getState :: "world \<Rightarrow> State \<Rightarrow> jsstring" where
  "getState w name = (case run_state w name of None \<Rightarrow> [] | Some v \<Rightarrow> v)"

definition fileExists :: "world \<Rightarrow> jsstring \<Rightarrow> bool" where
  "fileExists w filePath = existsSync w filePath"

definition ensureDirectoryExists :: "external \<Rightarrow> world \<Rightarrow> jsstring \<Rightarrow> bool \<times> world" where
  "ensureDirectoryExists x w dirPath =
     (if existsSync w dirPath then (True, w)
      else if mkdirSync_throws x dirPath then (False, w)
      else (True, w\<lparr>existsSync := (existsSync w)(dirPath := True)\<rparr>))"

definition restoreCache ::
  "external \<Rightarrow> env \<Rightarrow> world \<Rightarrow> CacheOptions \<Rightarrow> CacheType \<Rightarrow> CacheResult \<times> world" where
  "restoreCache x e w options type =
     (if \<not> enabled options then
        (\<lparr>primaryKey = [], matchedKey = None, cacheHit = False\<rparr>, w)
      else
        (let pk = getPrimaryKey e (primaryKey_in options) type;
             w1 = saveState w CachePrimaryKey pk;
             rks = getRestoreKeys e (map_option (join [10]) (restoreKeys options)) type;
             cachePaths = (case paths options of Some ps \<Rightarrow> ps | None \<Rightarrow> getCachePaths e type);
             w2 = fold (\<lambda>cachePath v. snd (ensureDirectoryExists x v cachePath)) cachePaths w1;
             w3 = w2\<lparr>store_calls := store_calls w2 @ [RestoreCall cachePaths pk rks]\<rparr>
         in case cache_restoreCache x cachePaths pk rks of
              RestoreThrows \<Rightarrow>
                (\<lparr>primaryKey = pk, matchedKey = None, cacheHit = False\<rparr>, w3)
            | RestoreReturns None \<Rightarrow>
                (\<lparr>primaryKey = pk, matchedKey = None, cacheHit = False\<rparr>, w3)
            | RestoreReturns (Some mk) \<Rightarrow>
                if mk = [] then
                  (\<lparr>primaryKey = pk, matchedKey = None, cacheHit = False\<rparr>, w3)
                else
                  (\<lparr>primaryKey = pk, matchedKey = Some mk, cacheHit = True\<rparr>,
                   saveState w3 CacheMatchedKey mk)))"

definition saveCache ::
  "external \<Rightarrow> env \<Rightarrow> world \<Rightarrow> CacheOptions \<Rightarrow> CacheType \<Rightarrow> bool \<times> world" where
  "saveCache x e w options type =
     (if \<not> enabled options then (False, w)
      else
        (let pk = (if getState w CachePrimaryKey \<noteq> [] then getState w CachePrimaryKey
                   else getPrimaryKey e (primaryKey_in options) type);
             mk = getState w CacheMatchedKey;
             cachePaths = (case paths options of Some ps \<Rightarrow> ps | None \<Rightarrow> getCachePaths e type);
             allPathsExist = list_all (\<lambda>cachePath. fileExists w cachePath) cachePaths
         in if \<not> allPathsExist then (False, w)
            else if pk = [] then (False, w)
            else if pk = mk then (False, w)
            else
              (let w1 = w\<lparr>store_calls := store_calls w @ [SaveCall cachePaths pk]\<rparr>
               in case cache_saveCache x cachePaths pk of
                    SaveThrows \<Rightarrow> (False, w1)
                  | SaveReturns cacheId \<Rightarrow> if cacheId = - 1 then (False, w1) else (True, w1))))"

subsection \<open>Names for the values the two operations compute\<close>

text \<open>
  The paths an operation works on (\<^verbatim>\<open>options.paths || getCachePaths(type)\<close>), the answer
  of the store to the one restore call that \<open>restoreCache\<close> makes, and the primary key
  that \<open>saveCache\<close> recovers from the run state or derives again.
\<close>

definition resolved_paths :: "env \<Rightarrow> CacheOptions \<Rightarrow> CacheType \<Rightarrow> jsstring list" where
  "resolved_paths e options type =
     (case paths options of Some ps \<Rightarrow> ps | None \<Rightarrow> getCachePaths e type)"

definition store_answer :: "external \<Rightarrow> env \<Rightarrow> CacheOptions \<Rightarrow> CacheType \<Rightarrow> restore_response" where
  "store_answer x e options type =
     cache_restoreCache x (resolved_paths e options type)
       (getPrimaryKey e (primaryKey_in options) type)
       (getRestoreKeys e (map_option (join [10]) (restoreKeys options)) type)"

definition recovered_key :: "env \<Rightarrow> world \<Rightarrow> CacheOptions \<Rightarrow> CacheType \<Rightarrow> jsstring" where
  "recovered_key e w options type =
     (if getState w CachePrimaryKey \<noteq> [] then getState w CachePrimaryKey
      else getPrimaryKey e (primaryKey_in options) type)"

subsection \<open>Worked inputs\<close>

text \<open>
  A world in which nothing was saved, nothing exists on disk and the store was never
  called, and a store that gives fixed answers.
\<close>

definition fresh_world :: world where
  "fresh_world = \<lparr>run_state = (\<lambda>name. None), existsSync = (\<lambda>p. False), store_calls = []\<rparr>"

definition fixed_store :: "restore_response \<Rightarrow> save_response \<Rightarrow> external" where
  "fixed_store r s =
     \<lparr>mkdirSync_throws = (\<lambda>p. False),
      cache_restoreCache = (\<lambda>ps k rks. r),
      cache_saveCache = (\<lambda>ps k. s)\<rparr>"

definition options_with_key :: "jsstring \<Rightarrow> CacheOptions" where
  "options_with_key k =
     \<lparr>enabled = True, primaryKey_in = Some k, restoreKeys = None, paths = None,
      compressionLevel = None\<rparr>"

text \<open>
  A store that holds the key \<^verbatim>\<open>linux-foundry-chain-fork-new\<close>, and one that holds only
  an older key under the same prefix; both accept a save.
\<close>

definition hit_store :: external where
  "hit_store = fixed_store (RestoreReturns (Some (js ''linux-foundry-chain-fork-new''))) (SaveReturns 7)"

definition warm_store :: external where
  "warm_store = fixed_store (RestoreReturns (Some (js ''linux-foundry-chain-fork-old''))) (SaveReturns 7)"

section \<open>Gas snapshots\<close>

subsection \<open>Numbers and objects\<close>

text \<open>
  A number of the runtime is an IEEE 754 double: \<open>Num q\<close> is the finite double of value
  \<open>q\<close>, and the other three constructors are the results IEEE 754 gives where no finite
  value exists. The sign of a zero is not modelled: \<open>Num 0\<close> is the positive zero, as a
  gas value of zero is. A negative zero can arise below only as the percentage of an
  unchanged test whose previous gas value is negative.
\<close>

datatype jsnum = Num rat | PosInfinity | NegInfinity | NaN

text \<open>
  The result of an arithmetic operation is the exact result rounded to the nearest
  double, a tie going to the even significand. \<open>floor_log2 x\<close> is the exponent \<open>e\<close> with
  \<open>2 ^ e \<le> x < 2 ^ (e + 1)\<close> for a positive \<open>x\<close>. A double has 53 significant bits, hence
  the spacing \<open>2 ^ (e - 52)\<close> of the doubles around \<open>x\<close>; below \<open>2 ^ - 1022\<close> the spacing
  stays \<open>2 ^ - 1074\<close>, and a result of \<open>2 ^ 1024\<close> or more is an infinity.
\<close>

definition pow2 :: "int \<Rightarrow> rat" where
  "pow2 e = (if 0 \<le> e then 2 ^ nat e else 1 / 2 ^ nat (- e))"

definition floor_log2 :: "rat \<Rightarrow> int" where
  "floor_log2 x =
     (if 1 \<le> x then bitlen \<lfloor>x\<rfloor> - 1
      else - bitlen (if of_int \<lfloor>1 / x\<rfloor> = 1 / x then \<lfloor>1 / x\<rfloor> - 1 else \<lfloor>1 / x\<rfloor>))"

definition round_half_even :: "rat \<Rightarrow> int" where
  "round_half_even m =
     (let q = \<lfloor>m\<rfloor>; f = m - of_int q
      in if f < 1 / 2 then q
         else if 1 / 2 < f then q + 1
         else if even q then q else q + 1)"

definition round64_pos :: "rat \<Rightarrow> rat" where
  "round64_pos x =
     (let e = max (floor_log2 x) (- 1022)
      in of_int (round_half_even (x * pow2 (52 - e))) * pow2 (e - 52))"

definition round64 :: "rat \<Rightarrow> jsnum" where
  "round64 x =
     (if x = 0 then Num 0
      else if 0 < x then
        (let y = round64_pos x in if pow2 1024 \<le> y then PosInfinity else Num y)
      else
        (let y = round64_pos (- x) in if pow2 1024 \<le> y then NegInfinity else Num (- y)))"

text \<open>\<^verbatim>\<open>x / b\<close> for a number \<open>x\<close> and an integer \<open>b\<close>.\<close>

fun js_div :: "jsnum \<Rightarrow> int \<Rightarrow> jsnum" where
  "js_div NaN b = NaN"
| "js_div (Num q) b =
     (if b = 0 then (if q = 0 then NaN else if 0 < q then PosInfinity else NegInfinity)
      else round64 (q / of_int b))"
| "js_div PosInfinity b = (if b < 0 then NegInfinity else PosInfinity)"
| "js_div NegInfinity b = (if b < 0 then PosInfinity else NegInfinity)"

text \<open>\<^verbatim>\<open>x * 100\<close>.\<close>

fun js_times100 :: "jsnum \<Rightarrow> jsnum" where
  "js_times100 (Num q) = round64 (q * 100)"
| "js_times100 PosInfinity = PosInfinity"
| "js_times100 NegInfinity = NegInfinity"
| "js_times100 NaN = NaN"

text \<open>
  \<^verbatim>\<open>x - y\<close>, as the comparator of the sort uses it: there only the sign of the result
  is read, which is the sign of the exact difference.
\<close>

fun js_sub :: "jsnum \<Rightarrow> jsnum \<Rightarrow> jsnum" where
  "js_sub NaN y = NaN"
| "js_sub x NaN = NaN"
| "js_sub (Num a) (Num b) = Num (a - b)"
| "js_sub (Num a) PosInfinity = NegInfinity"
| "js_sub (Num a) NegInfinity = PosInfinity"
| "js_sub PosInfinity PosInfinity = NaN"
| "js_sub PosInfinity y = PosInfinity"
| "js_sub NegInfinity NegInfinity = NaN"
| "js_sub NegInfinity y = NegInfinity"

text \<open>\<^verbatim>\<open>Math.abs(x)\<close> and \<^verbatim>\<open>x >= y\<close>; a comparison with \<^verbatim>\<open>NaN\<close> is false.\<close>

fun js_abs :: "jsnum \<Rightarrow> jsnum" where
  "js_abs (Num q) = Num \<bar>q\<bar>"
| "js_abs PosInfinity = PosInfinity"
| "js_abs NegInfinity = PosInfinity"
| "js_abs NaN = NaN"

fun js_ge :: "jsnum \<Rightarrow> jsnum \<Rightarrow> bool" where
  "js_ge NaN y = False"
| "js_ge x NaN = False"
| "js_ge (Num a) (Num b) = (b \<le> a)"
| "js_ge PosInfinity y = True"
| "js_ge x NegInfinity = True"
| "js_ge (Num a) PosInfinity = False"
| "js_ge NegInfinity y = False"

text \<open>
  The comparator of \<^verbatim>\<open>Array.prototype.sort\<close> moves its first argument behind its second
  when it returns a number above zero; \<^verbatim>\<open>NaN\<close> counts as zero.
\<close>

fun js_positive :: "jsnum \<Rightarrow> bool" where
  "js_positive (Num q) = (0 < q)"
| "js_positive PosInfinity = True"
| "js_positive NegInfinity = False"
| "js_positive NaN = False"

text \<open>\<^verbatim>\<open>x < 0\<close>.\<close>

fun js_negative :: "jsnum \<Rightarrow> bool" where
  "js_negative (Num q) = (q < 0)"
| "js_negative PosInfinity = False"
| "js_negative NegInfinity = True"
| "js_negative NaN = False"

text \<open>\<^verbatim>\<open>x || 0\<close> on an optional number: \<^verbatim>\<open>undefined\<close>, \<^verbatim>\<open>NaN\<close> and 0 are falsy.\<close>

fun or0 :: "jsnum option \<Rightarrow> jsnum" where
  "or0 None = Num 0"
| "or0 (Some NaN) = Num 0"
| "or0 (Some x) = x"

text \<open>
  The table of test results of a snapshot is a plain object. It is the list of its own
  properties in the order \<^verbatim>\<open>Object.keys\<close> and \<^verbatim>\<open>Object.entries\<close> list them. \<open>get_prop\<close> reads
  an own property, and \<open>set_prop\<close> assigns to a key: where the key is an own property,
  as it is wherever the functions below assign, the value is replaced in place.
\<close>

type_synonym 'v props = "(jsstring \<times> 'v) list"

definition get_prop :: "'v props \<Rightarrow> jsstring \<Rightarrow> 'v option" where
  "get_prop ps k = map_of ps k"

fun set_prop :: "jsstring \<Rightarrow> 'v \<Rightarrow> 'v props \<Rightarrow> 'v props" where
  "set_prop k v [] = [(k, v)]"
| "set_prop k v (p # ps) = (if fst p = k then (k, v) # ps else p # set_prop k v ps)"

definition keys :: "'v props \<Rightarrow> jsstring list" where
  "keys ps = map fst ps"

text \<open>
  \<^verbatim>\<open>obj[name]\<close> on a plain object does not stop at the own properties: a name that is
  not an own property is looked up in \<^verbatim>\<open>Object.prototype\<close>, whose members are listed
  here. Each of them is a function, or for \<^verbatim>\<open>__proto__\<close> the prototype itself: a value
  that counts as true and has no property \<^verbatim>\<open>gasUsed\<close>. For any other name the result is
  \<^verbatim>\<open>undefined\<close>.
\<close>

definition Object_prototype_names :: "jsstring list" where
  "Object_prototype_names =
     [js ''constructor'', js ''hasOwnProperty'', js ''isPrototypeOf'',
      js ''propertyIsEnumerable'', js ''toLocaleString'', js ''toString'', js ''valueOf'',
      js ''__proto__'', js ''__defineGetter__'', js ''__defineSetter__'',
      js ''__lookupGetter__'', js ''__lookupSetter__'']"

datatype 'v looked_up = Own 'v | Inherited | Missing

definition lookup :: "'v props \<Rightarrow> jsstring \<Rightarrow> 'v looked_up" where
  "lookup ps k =
     (case get_prop ps k of
        Some v \<Rightarrow> Own v
      | None \<Rightarrow> if k \<in> set Object_prototype_names then Inherited else Missing)"

text \<open>
  \<^verbatim>\<open>result[name] = n\<close> for a number \<open>n\<close> on a plain object that is read as a mapping only:
  the own property is created or overwritten, except for the name \<^verbatim>\<open>__proto__\<close>, where
  the assignment reaches the setter that \<^verbatim>\<open>Object.prototype\<close> provides, which ignores a
  value that is not an object.
\<close>

definition assign :: "jsstring \<Rightarrow> 'v \<Rightarrow> (jsstring \<rightharpoonup> 'v) \<Rightarrow> (jsstring \<rightharpoonup> 'v)" where
  "assign k v m = (if k = js ''__proto__'' then m else m(k \<mapsto> v))"

text \<open>
  A gas value is an integer; every integer of at most \<open>2 ^ 53\<close> in absolute value is
  a double. In a comparison \<open>previous\<close> is \<open>None\<close> for \<^verbatim>\<open>undefined\<close>, which is what the
  comparator stores when it has read \<^verbatim>\<open>gasUsed\<close> off a member of \<^verbatim>\<open>Object.prototype\<close>,
  and \<open>change\<close> is a number, since the subtraction that computes it rounds and can
  yield \<^verbatim>\<open>NaN\<close>.
\<close>

record Comparison =
  previous :: "int option"
  change :: "jsnum option"
  changePercentage :: "jsnum option"

record TestResult =
  gasUsed :: int
  comparison :: "Comparison option"

record GasSnapshot =
  timestamp :: jsstring
  commitSha :: jsstring
  testResults :: "TestResult props"

subsection \<open>Parsing the output of the snapshot command\<close>

definition is_digit :: "nat \<Rightarrow> bool" where
  "is_digit c \<longleftrightarrow> 48 \<le> c \<and> c \<le> 57"

text \<open>The code units that \<^verbatim>\<open>.\<close> does not match.\<close>

definition is_line_terminator :: "nat \<Rightarrow> bool" where
  "is_line_terminator c \<longleftrightarrow> c = 10 \<or> c = 13 \<or> c = 8232 \<or> c = 8233"

text \<open>
  The tail \<^verbatim>\<open>\s+\(gas:\s+(\d+)\)\<close> of the pattern, matched at the start of \<open>s\<close>; the
  result is the digit group. White space, \<^verbatim>\<open>(\<close>, digits and \<^verbatim>\<open>)\<close> are disjoint classes,
  so each greedy run has one possible length.
\<close>

definition match_gas :: "jsstring \<Rightarrow> jsstring option" where
  "match_gas s =
     (let r1 = dropWhile is_ws s in
      if takeWhile is_ws s = [] then None
      else if take 5 r1 \<noteq> js ''(gas:'' then None
      else
        (let r2 = drop 5 r1; r3 = dropWhile is_ws r2 in
         if takeWhile is_ws r2 = [] then None
         else
           (let ds = takeWhile is_digit r3 in
            if ds = [] then None
            else (case dropWhile is_digit r3 of
                    [] \<Rightarrow> None
                  | c # rest \<Rightarrow> if c = 41 then Some ds else None))))"

text \<open>
  \<^verbatim>\<open>line.match(/^(.*?)\s+\(gas:\s+(\d+)\)/)\<close>: the lazy group takes the shortest run of
  code units other than line terminators after which the tail matches. The result is
  the pair of the two groups.
\<close>

fun match_line :: "jsstring \<Rightarrow> (jsstring \<times> jsstring) option" where
  "match_line [] = None"
| "match_line (c # cs) =
     (case match_gas (c # cs) of
        Some ds \<Rightarrow> Some ([], ds)
      | None \<Rightarrow>
          if is_line_terminator c then None
          else (case match_line cs of
                  None \<Rightarrow> None
                | Some (name, ds) \<Rightarrow> Some (c # name, ds)))"

text \<open>
  \<^verbatim>\<open>parseInt(digits, 10)\<close> on a non-empty string of decimal digits: the double nearest to
  the integer the digits denote, \<^verbatim>\<open>Infinity\<close> from about 309 digits on.
\<close>

definition digits_value :: "jsstring \<Rightarrow> int" where
  "digits_value ds = foldl (\<lambda>acc d. acc * 10 + (int d - 48)) 0 ds"

definition parseInt :: "jsstring \<Rightarrow> jsnum" where
  "parseInt ds = round64 (of_int (digits_value ds))"

definition parseGasSnapshot :: "jsstring \<Rightarrow> (jsstring \<rightharpoonup> jsnum)" where
  "parseGasSnapshot snapshotOutput =
     (let lines = split_on (\<lambda>c. c = 10) snapshotOutput
      in fold (\<lambda>line result.
                 case match_line line of
                   None \<Rightarrow> result
                 | Some (testName, gas) \<Rightarrow> assign (trim testName) (parseInt gas) result)
           lines Map.empty)"

text \<open>What one line contributes: the trimmed name and the number, when the line matches.\<close>

definition line_entry :: "jsstring \<Rightarrow> (jsstring \<times> jsnum) option" where
  "line_entry line =
     (case match_line line of
        None \<Rightarrow> None
      | Some (testName, gas) \<Rightarrow> Some (trim testName, parseInt gas))"

subsection \<open>Comparing two snapshots\<close>

definition compareGasSnapshots :: "GasSnapshot \<Rightarrow> GasSnapshot \<Rightarrow> GasSnapshot" where
  "compareGasSnapshots currentSnapshot previousSnapshot =
     (let result = currentSnapshot\<lparr>testResults := testResults currentSnapshot\<rparr>
      in fold (\<lambda>(testName, current) result.
                 case lookup (testResults previousSnapshot) testName of
                   Missing \<Rightarrow> result
                 | Inherited \<Rightarrow>
                     result\<lparr>testResults :=
                       set_prop testName
                         (current\<lparr>comparison :=
                            Some \<lparr>previous = None, change = Some NaN,
                                  changePercentage = Some NaN\<rparr>\<rparr>)
                         (testResults result)\<rparr>
                 | Own prev \<Rightarrow>
                     (let chg = round64 (of_int (gasUsed current - gasUsed prev));
                          pct = js_times100 (js_div chg (gasUsed prev))
                      in result\<lparr>testResults :=
                           set_prop testName
                             (current\<lparr>comparison :=
                                Some \<lparr>previous = Some (gasUsed prev),
                                      change = Some chg,
                                      changePercentage = Some pct\<rparr>\<rparr>)
                             (testResults result)\<rparr>))
           (testResults result) result)"

text \<open>
  What the loop does to one entry of the current snapshot, given the table of the
  previous one.
\<close>

definition compared :: "TestResult props \<Rightarrow> jsstring \<times> TestResult \<Rightarrow> jsstring \<times> TestResult" where
  "compared pps entry =
     (case lookup pps (fst entry) of
        Missing \<Rightarrow> entry
      | Inherited \<Rightarrow>
          (fst entry,
           (snd entry)\<lparr>comparison :=
              Some \<lparr>previous = None, change = Some NaN, changePercentage = Some NaN\<rparr>\<rparr>)
      | Own prev \<Rightarrow>
          (fst entry,
           (snd entry)\<lparr>comparison :=
              Some \<lparr>previous = Some (gasUsed prev),
                    change = Some (round64 (of_int (gasUsed (snd entry) - gasUsed prev))),
                    changePercentage =
                      Some (js_times100
                              (js_div (round64 (of_int (gasUsed (snd entry) - gasUsed prev)))
                                 (gasUsed prev)))\<rparr>\<rparr>))"

text \<open>The snapshots of the worked examples.\<close>

definition plain :: "int \<Rightarrow> TestResult" where
  "plain g = \<lparr>gasUsed = g, comparison = None\<rparr>"

definition snapshot_now :: GasSnapshot where
  "snapshot_now =
     \<lparr>timestamp = js ''2025-03-21T12:00:00.000Z'', commitSha = js ''1234'',
      testResults = [(js ''a'', plain 20000), (js ''c'', plain 30000)]\<rparr>"

definition snapshot_before :: GasSnapshot where
  "snapshot_before =
     \<lparr>timestamp = js ''2025-03-20T12:00:00.000Z'', commitSha = js ''abcd'',
      testResults = [(js ''a'', plain 22000), (js ''b'', plain 35000)]\<rparr>"

definition snapshot_zero :: GasSnapshot where
  "snapshot_zero =
     \<lparr>timestamp = js ''2025-03-19T12:00:00.000Z'', commitSha = js ''0000'',
      testResults = [(js ''a'', plain 0)]\<rparr>"

text \<open>
  Two snapshots with a test of 183 gas after 160, a snapshot whose only test has the
  name \<^verbatim>\<open>constructor\<close>, and one without tests.
\<close>

definition snapshot_183 :: GasSnapshot where
  "snapshot_183 =
     \<lparr>timestamp = js ''2025-03-21T12:00:00.000Z'', commitSha = js ''1234'',
      testResults = [(js ''t()'', plain 183)]\<rparr>"

definition snapshot_160 :: GasSnapshot where
  "snapshot_160 =
     \<lparr>timestamp = js ''2025-03-20T12:00:00.000Z'', commitSha = js ''abcd'',
      testResults = [(js ''t()'', plain 160)]\<rparr>"

definition snapshot_constructor :: GasSnapshot where
  "snapshot_constructor =
     \<lparr>timestamp = js ''2025-03-21T12:00:00.000Z'', commitSha = js ''1234'',
      testResults = [(js ''constructor'', plain 5)]\<rparr>"

definition snapshot_empty :: GasSnapshot where
  "snapshot_empty =
     \<lparr>timestamp = js ''2025-03-20T12:00:00.000Z'', commitSha = js ''abcd'', testResults = []\<rparr>"

subsection \<open>The bounded history\<close>

text \<open>\<^verbatim>\<open>xs.slice(-n)\<close>: the last \<open>n\<close> elements, or all of them when there are fewer.\<close>

definition slice_last :: "nat \<Rightarrow> 'a list \<Rightarrow> 'a list" where
  "slice_last n xs = drop (length xs - n) xs"

text \<open>
  \<open>stored\<close> is what \<^verbatim>\<open>readJsonFile\<close> finds in the history file (\<open>None\<close> when the file is
  missing or unreadable) and \<open>write_fails\<close> says whether \<^verbatim>\<open>writeJsonFile\<close> fails. The
  result is the returned flag and the content of the history file after the call.
\<close>

definition addGasSnapshotToHistory ::
  "bool \<Rightarrow> GasSnapshot \<Rightarrow> GasSnapshot list option \<Rightarrow> bool \<times> GasSnapshot list option" where
  "addGasSnapshotToHistory write_fails snapshot stored =
     (let history = (case stored of None \<Rightarrow> [] | Some h \<Rightarrow> h) @ [snapshot];
          limitedHistory = slice_last 100 history
      in if write_fails then (False, stored) else (True, Some limitedHistory))"

text \<open>The log that the append starts from, and the snapshots of a worked log.\<close>

definition history_of :: "GasSnapshot list option \<Rightarrow> GasSnapshot list" where
  "history_of stored = (case stored of None \<Rightarrow> [] | Some h \<Rightarrow> h)"

definition numbered :: "nat \<Rightarrow> GasSnapshot" where
  "numbered i = \<lparr>timestamp = js ''2025-03-21T12:00:00.000Z'', commitSha = [i], testResults = []\<rparr>"

subsection \<open>The report\<close>

text \<open>
  The conversions of numbers to text are functions of the runtime and are taken as
  parameters: \<open>num\<close> is the conversion a template literal applies to a number,
  \<open>toFixed2\<close> is \<^verbatim>\<open>x.toFixed(2)\<close>. An integer \<open>i\<close> is the number \<open>Num (of_int i)\<close>.
\<close>

record formatting =
  num :: "jsnum \<Rightarrow> jsstring"
  toFixed2 :: "jsnum \<Rightarrow> jsstring"

definition GAS_SNAPSHOT_COMPARISON_THRESHOLD :: rat where
  "GAS_SNAPSHOT_COMPARISON_THRESHOLD = 5"

text \<open>The markers: a space and U+1F534, a space and U+1F7E2, and U+26AA.\<close>

definition RED :: jsstring where
  "RED = [32, 55357, 56628]"

definition GREEN :: jsstring where
  "GREEN = [32, 55357, 57314]"

definition WHITE :: jsstring where
  "WHITE = [9898]"

definition NO_DATA :: jsstring where
  "NO_DATA = js ''No gas snapshot data available.''"

definition NO_COMPARISON_DATA :: jsstring where
  "NO_COMPARISON_DATA = js ''No comparison data available for gas snapshot.''"

definition REPORT_HEADER :: jsstring where
  "REPORT_HEADER =
     js ''## Gas Snapshot Comparison'' @ [10, 10] @
     js ''| Test | Current Gas | Previous Gas | Change | % Change |'' @ [10] @
     js ''|------|-------------|--------------|--------|----------|'' @ [10]"

text \<open>
  \<^verbatim>\<open>Array.prototype.sort\<close> with a comparator is stable. It is modelled as the stable
  insertion sort: an element moves behind the elements that the comparator puts
  before it, and behind no others.
\<close>

fun insort_cmp :: "('a \<Rightarrow> 'a \<Rightarrow> jsnum) \<Rightarrow> 'a \<Rightarrow> 'a list \<Rightarrow> 'a list" where
  "insort_cmp cmp x [] = [x]"
| "insort_cmp cmp x (y # ys) =
     (if js_positive (cmp x y) then y # insort_cmp cmp x ys else x # y # ys)"

definition sort_cmp :: "('a \<Rightarrow> 'a \<Rightarrow> jsnum) \<Rightarrow> 'a list \<Rightarrow> 'a list" where
  "sort_cmp cmp xs = foldr (insort_cmp cmp) xs []"

text \<open>\<^verbatim>\<open>testResults[testName].comparison\<close>, for a name among the keys.\<close>

definition comparison_of :: "TestResult props \<Rightarrow> jsstring \<Rightarrow> Comparison option" where
  "comparison_of trs testName =
     (case get_prop trs testName of None \<Rightarrow> None | Some t \<Rightarrow> comparison t)"

text \<open>\<^verbatim>\<open>testResults[a].comparison?.changePercentage || 0\<close>\<close>

definition percentage_or0 :: "TestResult props \<Rightarrow> jsstring \<Rightarrow> jsnum" where
  "percentage_or0 trs a =
     or0 (case comparison_of trs a of None \<Rightarrow> None | Some c \<Rightarrow> changePercentage c)"

text \<open>\<^verbatim>\<open>testResults[testName].comparison?.change || 0\<close>\<close>

definition change_or0 :: "TestResult props \<Rightarrow> jsstring \<Rightarrow> jsnum" where
  "change_or0 trs a =
     or0 (case comparison_of trs a of None \<Rightarrow> None | Some c \<Rightarrow> change c)"

definition testsWithComparison :: "TestResult props \<Rightarrow> jsstring list" where
  "testsWithComparison trs =
     filter (\<lambda>testName. comparison_of trs testName \<noteq> None) (keys trs)"

definition sortedTests :: "TestResult props \<Rightarrow> jsstring list" where
  "sortedTests trs =
     sort_cmp (\<lambda>a b. js_sub (percentage_or0 trs b) (percentage_or0 trs a))
       (testsWithComparison trs)"

text \<open>
  The body of the loop over \<open>sortedTests\<close> destructures the comparison with the defaults
  \<^verbatim>\<open>change = 0\<close> and \<^verbatim>\<open>changePercentage = 0\<close>, which apply to \<^verbatim>\<open>undefined\<close> only.
\<close>

definition row_percentage :: "Comparison \<Rightarrow> jsnum" where
  "row_percentage c = (case changePercentage c of None \<Rightarrow> Num 0 | Some p \<Rightarrow> p)"

definition row_change :: "Comparison \<Rightarrow> jsnum" where
  "row_change c = (case change c of None \<Rightarrow> Num 0 | Some d \<Rightarrow> d)"

definition isSignificant :: "Comparison \<Rightarrow> bool" where
  "isSignificant c =
     js_ge (js_abs (row_percentage c)) (Num GAS_SNAPSHOT_COMPARISON_THRESHOLD)"

definition indicator :: "Comparison \<Rightarrow> jsstring" where
  "indicator c =
     (if isSignificant c then (if js_positive (row_change c) then RED else GREEN) else [])"

definition report_row :: "formatting \<Rightarrow> TestResult props \<Rightarrow> jsstring \<Rightarrow> jsstring" where
  "report_row f trs testName =
     (case get_prop trs testName of
        None \<Rightarrow> []
      | Some t \<Rightarrow>
          (case comparison t of
             None \<Rightarrow> []
           | Some c \<Rightarrow>
               (let changeFormatted =
                      (if js_positive (row_change c) then js ''+'' @ num f (row_change c)
                       else num f (row_change c));
                    percentFormatted = toFixed2 f (row_percentage c)
                in js ''| '' @ testName @ js '' | '' @ num f (Num (of_int (gasUsed t))) @
                   js '' | '' @
                   (case previous c of
                      None \<Rightarrow> js ''undefined''
                    | Some p \<Rightarrow> num f (Num (of_int p))) @
                   js '' | '' @ changeFormatted @ js '' | '' @ percentFormatted @
                   js ''%'' @ indicator c @ js '' |'' @ [10])))"

definition report_summary :: "formatting \<Rightarrow> TestResult props \<Rightarrow> jsstring list \<Rightarrow> jsstring" where
  "report_summary f trs tests =
     (let increases = length (filter (\<lambda>testName. js_positive (change_or0 trs testName)) tests);
          decreases = length (filter (\<lambda>testName. js_negative (change_or0 trs testName)) tests);
          unchanged = length (filter (\<lambda>testName. change_or0 trs testName = Num 0) tests)
      in [10] @ js ''### Summary'' @ [10, 10] @
         js ''-'' @ RED @ js '' Gas increases: '' @ num f (Num (of_nat increases)) @ [10] @
         js ''-'' @ GREEN @ js '' Gas decreases: '' @ num f (Num (of_nat decreases)) @ [10] @
         js ''- '' @ WHITE @ js '' Unchanged: '' @ num f (Num (of_nat unchanged)) @ [10] @
         js ''- Total tests compared: '' @ num f (Num (of_nat (length tests))) @ [10])"

definition generateGasReport :: "formatting \<Rightarrow> GasSnapshot \<Rightarrow> jsstring" where
  "generateGasReport f snapshot =
     (let trs = testResults snapshot;
          testNames = keys trs
      in if length testNames = 0 then NO_DATA
         else if length (testsWithComparison trs) = 0 then NO_COMPARISON_DATA
         else REPORT_HEADER @ concat (map (report_row f trs) (sortedTests trs)) @
              report_summary f trs (sortedTests trs))"

text \<open>
  A formatting for the worked examples: decimal digits for an integer-valued number,
  and for \<^verbatim>\<open>toFixed(2)\<close> the nearest multiple of 1/100, a tie going away from zero.
\<close>

function decimal_nat :: "nat \<Rightarrow> jsstring" where
  "decimal_nat n = (if n < 10 then [48 + n] else decimal_nat (n div 10) @ [48 + n mod 10])"
  by pat_completeness auto
termination
  by (relation "measure (\<lambda>n. n)") auto

declare decimal_nat.simps [simp del]

definition decimal :: "jsnum \<Rightarrow> jsstring" where
  "decimal x =
     (case x of
        NaN \<Rightarrow> js ''NaN''
      | PosInfinity \<Rightarrow> js ''Infinity''
      | NegInfinity \<Rightarrow> js ''-Infinity''
      | Num q \<Rightarrow>
          if q < 0 then js ''-'' @ decimal_nat (nat \<lfloor>- q\<rfloor>) else decimal_nat (nat \<lfloor>q\<rfloor>))"

definition fixed2 :: "jsnum \<Rightarrow> jsstring" where
  "fixed2 x =
     (case x of
        NaN \<Rightarrow> js ''NaN''
      | PosInfinity \<Rightarrow> js ''Infinity''
      | NegInfinity \<Rightarrow> js ''-Infinity''
      | Num q \<Rightarrow>
          (let n = nat \<lfloor>\<bar>q\<bar> * 100 + 1 / 2\<rfloor>
           in (if q < 0 then js ''-'' else []) @ decimal_nat (n div 100) @ js ''.'' @
              [48 + n mod 100 div 10, 48 + n mod 10]))"

definition decimal_formatting :: formatting where
  "decimal_formatting = \<lparr>num = decimal, toFixed2 = fixed2\<rparr>"

text \<open>
  A compared snapshot: a decrease, whose percentage is the double of
  \<^verbatim>\<open>(-4000 / 22000) * 100\<close>, an unchanged test, an increase and a new test.
\<close>

definition compared_result :: "int \<Rightarrow> int \<Rightarrow> jsnum \<Rightarrow> TestResult" where
  "compared_result g p q =
     \<lparr>gasUsed = g,
      comparison =
        Some \<lparr>previous = Some p, change = Some (Num (of_int (g - p))),
              changePercentage = Some q\<rparr>\<rparr>"

definition snapshot_reported :: GasSnapshot where
  "snapshot_reported =
     \<lparr>timestamp = js ''2025-03-21T12:00:00.000Z'', commitSha = js ''1234'',
      testResults =
        [(js ''down'', compared_result 18000 22000
            (Num (- 5117726849284655 / 281474976710656))),
         (js ''same'', compared_result 30000 30000 (Num 0)),
         (js ''up'', compared_result 25000 20000 (Num 25)),
         (js ''new'', plain 35000)]\<rparr>"

subsection \<open>Comparing two snapshots as objects on a heap\<close>

text \<open>
  Whether the comparison changes its arguments is a question about objects that are
  shared by reference. For it the snapshots are placed on a heap: a list of cells, an
  address being an index, where a new object is appended. A snapshot refers to its
  table of test results, the table refers to each test result, and a test result
  refers to its comparison when it has one.
\<close>

type_synonym addr = nat

datatype obj =
    SnapshotObj jsstring jsstring addr
  | TableObj "addr props"
  | ResultObj int "addr option"
  | ComparisonObj "int option" "jsnum option" "jsnum option"

type_synonym heap = "obj list"

definition cell :: "heap \<Rightarrow> addr \<Rightarrow> obj option" where
  "cell h a = (if a < length h then Some (h ! a) else None)"

definition alloc :: "heap \<Rightarrow> obj \<Rightarrow> heap \<times> addr" where
  "alloc h ob = (h @ [ob], length h)"

text \<open>
  \<open>attach\<close> is the assignment at the end of an iteration: the new comparison and the
  new test result, a copy of the current one that refers to it, are allocated, and
  the table at \<open>tbl\<close> is made to refer to the new test result.
\<close>

definition attach :: "addr \<Rightarrow> jsstring \<Rightarrow> int \<Rightarrow> obj \<Rightarrow> heap \<Rightarrow> heap option" where
  "attach tbl testName cg cmp h =
     (let (h1, c) = alloc h cmp;
          (h2, r) = alloc h1 (ResultObj cg (Some c))
      in case cell h2 tbl of
           Some (TableObj ps) \<Rightarrow> Some (h2[tbl := TableObj (set_prop testName r ps)])
         | _ \<Rightarrow> None)"

text \<open>
  One iteration of the loop over \<^verbatim>\<open>Object.entries(result.testResults)\<close>, for the entry
  of \<open>testName\<close> that refers to \<open>current\<close>; \<open>tbl\<close> is the address of
  \<^verbatim>\<open>result.testResults\<close>. A cell of the wrong kind, where the source would read a
  property of \<^verbatim>\<open>undefined\<close>, gives \<open>None\<close>.
\<close>

definition compare_step :: "addr \<Rightarrow> addr \<Rightarrow> jsstring \<times> addr \<Rightarrow> heap \<Rightarrow> heap option" where
  "compare_step prev tbl entry h =
     (case entry of (testName, current) \<Rightarrow>
        (case cell h prev of
           Some (SnapshotObj pts psha ptrs) \<Rightarrow>
             (case cell h ptrs of
                Some (TableObj pps) \<Rightarrow>
                  (case lookup pps testName of
                     Missing \<Rightarrow> Some h
                   | Inherited \<Rightarrow>
                       (case cell h current of
                          Some (ResultObj cg cc) \<Rightarrow>
                            attach tbl testName cg (ComparisonObj None (Some NaN) (Some NaN)) h
                        | _ \<Rightarrow> None)
                   | Own p \<Rightarrow>
                       (case cell h current of
                          Some (ResultObj cg cc) \<Rightarrow>
                            (case cell h p of
                               Some (ResultObj pg pc) \<Rightarrow>
                                 (let chg = round64 (of_int (cg - pg));
                                      pct = js_times100 (js_div chg pg)
                                  in attach tbl testName cg
                                       (ComparisonObj (Some pg) (Some chg) (Some pct)) h)
                             | _ \<Rightarrow> None)
                        | _ \<Rightarrow> None))
              | _ \<Rightarrow> None)
         | _ \<Rightarrow> None))"

text \<open>The loop runs over the entries that were listed before its first iteration.\<close>

fun compare_loop :: "addr \<Rightarrow> addr \<Rightarrow> addr props \<Rightarrow> heap \<Rightarrow> heap option" where
  "compare_loop prev tbl [] h = Some h"
| "compare_loop prev tbl (entry # es) h =
     (case compare_step prev tbl entry h of
        None \<Rightarrow> None
      | Some h1 \<Rightarrow> compare_loop prev tbl es h1)"

definition compareGasSnapshots_heap :: "heap \<Rightarrow> addr \<Rightarrow> addr \<Rightarrow> (heap \<times> addr) option" where
  "compareGasSnapshots_heap h currentSnapshot previousSnapshot =
     (case cell h currentSnapshot of
        Some (SnapshotObj ts csha trs) \<Rightarrow>
          (case cell h trs of
             Some (TableObj ps) \<Rightarrow>
               (let (h1, tbl) = alloc h (TableObj ps);
                    (h2, result) = alloc h1 (SnapshotObj ts csha tbl)
                in case compare_loop previousSnapshot tbl ps h2 of
                     None \<Rightarrow> None
                   | Some h3 \<Rightarrow> Some (h3, result))
           | _ \<Rightarrow> None)
      | _ \<Rightarrow> None)"

text \<open>The value a heap holds at an address, read as a test result and as a snapshot.\<close>

definition result_at :: "heap \<Rightarrow> addr \<Rightarrow> TestResult option" where
  "result_at h a =
     (case cell h a of
        Some (ResultObj g None) \<Rightarrow> Some \<lparr>gasUsed = g, comparison = None\<rparr>
      | Some (ResultObj g (Some c)) \<Rightarrow>
          (case cell h c of
             Some (ComparisonObj p d q) \<Rightarrow>
               Some \<lparr>gasUsed = g,
                     comparison = Some \<lparr>previous = p, change = d, changePercentage = q\<rparr>\<rparr>
           | _ \<Rightarrow> None)
      | _ \<Rightarrow> None)"

fun table_at :: "heap \<Rightarrow> addr props \<Rightarrow> TestResult props option" where
  "table_at h [] = Some []"
| "table_at h ((k, a) # ps) =
     (case result_at h a of
        None \<Rightarrow> None
      | Some t \<Rightarrow> (case table_at h ps of None \<Rightarrow> None | Some ts \<Rightarrow> Some ((k, t) # ts)))"

definition snapshot_at :: "heap \<Rightarrow> addr \<Rightarrow> GasSnapshot option" where
  "snapshot_at h a =
     (case cell h a of
        Some (SnapshotObj ts csha trs) \<Rightarrow>
          (case cell h trs of
             Some (TableObj ps) \<Rightarrow>
               (case table_at h ps of
                  None \<Rightarrow> None
                | Some t \<Rightarrow> Some \<lparr>timestamp = ts, commitSha = csha, testResults = t\<rparr>)
           | _ \<Rightarrow> None)
      | _ \<Rightarrow> None)"

text \<open>
  A heap \<open>h'\<close> extends \<open>h\<close> except at \<open>tbl\<close> when it keeps every cell of \<open>h\<close> other
  than the one at \<open>tbl\<close>, and \<open>free_or_table h tbl\<close> says that \<open>tbl\<close> is not the address
  of a test result or of a comparison.
\<close>

definition heap_ext :: "addr \<Rightarrow> heap \<Rightarrow> heap \<Rightarrow> bool" where
  "heap_ext tbl h h' \<longleftrightarrow> length h \<le> length h' \<and> (\<forall>a < length h. a \<noteq> tbl \<longrightarrow> h' ! a = h ! a)"

definition free_or_table :: "heap \<Rightarrow> addr \<Rightarrow> bool" where
  "free_or_table h tbl \<longleftrightarrow>
     (case cell h tbl of None \<Rightarrow> True | Some (TableObj ps) \<Rightarrow> True | Some ob \<Rightarrow> False)"

text \<open>
  A heap that holds the two snapshots of the worked example: the previous one at
  address 0 and the current one at address 4.
\<close>

definition example_heap :: heap where
  "example_heap =
     [SnapshotObj (js ''2025-03-20T12:00:00.000Z'') (js ''abcd'') 1,
      TableObj [(js ''a'', 2), (js ''b'', 3)],
      ResultObj 22000 None,
      ResultObj 35000 None,
      SnapshotObj (js ''2025-03-21T12:00:00.000Z'') (js ''1234'') 5,
      TableObj [(js ''a'', 6), (js ''c'', 7)],
      ResultObj 20000 None,
      ResultObj 30000 None]"

section \<open>Facts about rounding\<close>

lemma pow2_powi: "pow2 e = 2 powi e"
  by (simp add: pow2_def power_int_def inverse_eq_divide power_one_over)

lemma pow2_pos: "0 < pow2 e"
  by (simp add: pow2_powi)

lemma pow2_add: "pow2 (a + b) = pow2 a * pow2 b"
  by (simp add: pow2_powi power_int_add)

lemma pow2_mono: "a \<le> b \<Longrightarrow> pow2 a \<le> pow2 b"
  by (simp add: pow2_powi power_int_increasing)

lemma pow2_strict_mono: "a < b \<Longrightarrow> pow2 a < pow2 b"
  by (simp add: pow2_powi power_int_strict_increasing)

lemma pow2_less_imp: "pow2 a < pow2 b \<Longrightarrow> a < b"
  using pow2_mono [of b a] by (cases "a < b") auto

lemma pow2_nat: "0 \<le> e \<Longrightarrow> pow2 e = 2 ^ nat e"
  by (simp add: pow2_def)

lemma pow2_cancel: "pow2 a * pow2 (- a) = 1"
  using pow2_add [of a "- a"] by (simp add: pow2_def)

lemma floor_log2_bounds:
  assumes "0 < x"
  shows "pow2 (floor_log2 x) \<le> x \<and> x < pow2 (floor_log2 x + 1)"
proof (cases "1 \<le> x")
  case True
  let ?n = "\<lfloor>x\<rfloor>"
  from True have n: "0 < ?n" by simp
  from bitlen_bounds [OF n] have lo: "2 ^ nat (bitlen ?n - 1) \<le> ?n" and hi: "?n < 2 ^ nat (bitlen ?n)"
    by auto
  from n have b: "1 \<le> bitlen ?n"
    by (metis bitlen_eq_zero_iff bitlen_nonneg dual_order.strict_iff_order int_one_le_iff_zero_less not_le)
  have e: "floor_log2 x = bitlen ?n - 1" using True by (simp add: floor_log2_def)
  have "(2::rat) ^ nat (bitlen ?n - 1) \<le> of_int ?n"
    using lo by (metis of_int_le_iff of_int_numeral of_int_power)
  also have "\<dots> \<le> x" by simp
  finally have 1: "pow2 (floor_log2 x) \<le> x" using b by (simp add: e pow2_nat)
  from hi have "?n + 1 \<le> 2 ^ nat (bitlen ?n)" by simp
  then have "(of_int (?n + 1) :: rat) \<le> 2 ^ nat (bitlen ?n)"
    by (metis of_int_le_iff of_int_numeral of_int_power)
  moreover have "x < of_int (?n + 1)" by linarith
  ultimately have "x < 2 ^ nat (bitlen ?n)" by linarith
  then have 2: "x < pow2 (floor_log2 x + 1)" using b by (simp add: e pow2_nat)
  from 1 2 show ?thesis ..
next
  case False
  let ?y = "1 / x"
  let ?d = "if of_int \<lfloor>?y\<rfloor> = ?y then \<lfloor>?y\<rfloor> - 1 else \<lfloor>?y\<rfloor>"
  from False assms have y1: "1 < ?y" by simp
  have dy: "of_int ?d < ?y \<and> ?y \<le> of_int ?d + 1"
  proof (cases "of_int \<lfloor>?y\<rfloor> = ?y")
    case True
    then have "of_int ?d = ?y - 1" by simp
    then show ?thesis by simp
  next
    case False
    have "of_int \<lfloor>?y\<rfloor> \<le> ?y" by simp
    with False have "of_int \<lfloor>?y\<rfloor> < ?y"
      by (metis order.not_eq_order_implies_strict)
    moreover have "?y \<le> of_int \<lfloor>?y\<rfloor> + 1" by linarith
    ultimately show ?thesis using False by simp
  qed
  with y1 have "0 < of_int ?d + (1::rat)" by linarith
  then have "0 < ?d + 1" by (metis of_int_0_less_iff of_int_1 of_int_add)
  moreover have "?d \<noteq> 0"
  proof
    assume "?d = 0"
    with dy have "?y \<le> 1" by simp
    with y1 show False by simp
  qed
  ultimately have d: "0 < ?d" by linarith
  from bitlen_bounds [OF d] have lo: "2 ^ nat (bitlen ?d - 1) \<le> ?d" and hi: "?d < 2 ^ nat (bitlen ?d)"
    by auto
  from d have b: "1 \<le> bitlen ?d"
    by (metis bitlen_eq_zero_iff bitlen_nonneg dual_order.strict_iff_order int_one_le_iff_zero_less not_le)
  have e: "floor_log2 x = - bitlen ?d" using False by (simp add: floor_log2_def)
  have "(2::rat) ^ nat (bitlen ?d - 1) \<le> of_int ?d"
    using lo by (metis of_int_le_iff of_int_numeral of_int_power)
  with dy have ylo: "2 ^ nat (bitlen ?d - 1) < ?y" by linarith
  from hi have "?d + 1 \<le> 2 ^ nat (bitlen ?d)" by simp
  then have "(of_int (?d + 1) :: rat) \<le> 2 ^ nat (bitlen ?d)"
    by (metis of_int_le_iff of_int_numeral of_int_power)
  with dy have yhi: "?y \<le> 2 ^ nat (bitlen ?d)" by simp
  have p1: "pow2 (- bitlen ?d) = 1 / 2 ^ nat (bitlen ?d)"
    using b by (simp add: pow2_def)
  have p2: "pow2 (- bitlen ?d + 1) = 1 / 2 ^ nat (bitlen ?d - 1)"
  proof (cases "bitlen ?d = 1")
    case True
    then show ?thesis by (simp add: pow2_def)
  next
    case False
    with b have "- bitlen ?d + 1 < 0" by simp
    moreover have "nat (- (- bitlen ?d + 1)) = nat (bitlen ?d - 1)" by simp
    ultimately show ?thesis by (simp add: pow2_def)
  qed
  from yhi assms have "1 / 2 ^ nat (bitlen ?d) \<le> x"
    by (simp add: field_simps)
  then have 1: "pow2 (floor_log2 x) \<le> x" by (simp only: e p1)
  from ylo assms have "x < 1 / 2 ^ nat (bitlen ?d - 1)"
    by (simp add: field_simps)
  then have 2: "x < pow2 (floor_log2 x + 1)" by (simp only: e p2)
  from 1 2 show ?thesis ..
qed

lemma round_half_even_error: "\<bar>of_int (round_half_even m) - m\<bar> \<le> 1 / 2"
proof -
  have "of_int \<lfloor>m\<rfloor> \<le> m" "m < of_int \<lfloor>m\<rfloor> + 1" by linarith+
  then show ?thesis
    by (auto simp: round_half_even_def Let_def abs_le_iff)
qed

lemma round_half_even_int: "round_half_even (of_int k) = k"
  by (simp add: round_half_even_def)

lemma pow2_numeral_bounds:
  "pow2 (- 1022) \<le> pow2 (- 54)" "pow2 (- 54) = 1 / 2 ^ 54" "pow2 (- 53) = 1 / 2 ^ 53"
  "pow2 1023 = 2 ^ 1023" "pow2 1024 = 2 * pow2 1023" "pow2 (- 52) = 1 / 2 ^ 52"
  by (simp_all add: pow2_mono) (simp_all add: pow2_def)

lemma round64_pos_error:
  assumes "pow2 (- 1022) \<le> x"
  shows "\<bar>round64_pos x - x\<bar> \<le> x / 2 ^ 53"
proof -
  from assms pow2_pos [of "- 1022"] have x: "0 < x" by linarith
  let ?e = "floor_log2 x"
  from floor_log2_bounds [OF x] have lo: "pow2 ?e \<le> x" and hi: "x < pow2 (?e + 1)" by auto
  from assms hi have "pow2 (- 1022) < pow2 (?e + 1)" by linarith
  then have "- 1022 < ?e + 1" by (rule pow2_less_imp)
  then have mx: "max ?e (- 1022) = ?e" by simp
  let ?m = "x * pow2 (52 - ?e)"
  let ?n = "round_half_even ?m"
  have y: "round64_pos x = of_int ?n * pow2 (?e - 52)"
    by (simp add: round64_pos_def mx Let_def)
  have "pow2 (52 - ?e) * pow2 (?e - 52) = 1"
    using pow2_cancel [of "52 - ?e"] by simp
  then have inv: "?m * pow2 (?e - 52) = x" by simp
  have "round64_pos x - x = (of_int ?n - ?m) * pow2 (?e - 52)"
    using inv by (simp add: y algebra_simps)
  then have "\<bar>round64_pos x - x\<bar> = \<bar>of_int ?n - ?m\<bar> * pow2 (?e - 52)"
    using pow2_pos [of "?e - 52"] by (simp add: abs_mult)
  also have "\<dots> \<le> 1 / 2 * pow2 (?e - 52)"
    using round_half_even_error [of ?m] pow2_pos [of "?e - 52"]
    by (intro mult_right_mono) auto
  also have "pow2 (?e - 52) = pow2 ?e * pow2 (- 52)"
    using pow2_add [of ?e "- 52"] by simp
  also have "1 / 2 * (pow2 ?e * pow2 (- 52)) = pow2 ?e / 2 ^ 53"
    by (simp add: pow2_numeral_bounds)
  also have "\<dots> \<le> x / 2 ^ 53"
    using lo by (simp add: divide_right_mono)
  finally show ?thesis .
qed

text \<open>
  In the range of the normal doubles the rounded value differs from the exact one by at
  most one part in \<open>2 ^ 53\<close>.
\<close>

lemma round64_error:
  assumes "pow2 (- 1022) \<le> \<bar>x\<bar>" and "\<bar>x\<bar> < pow2 1023"
  shows "\<exists>y. round64 x = Num y \<and> \<bar>y - x\<bar> \<le> \<bar>x\<bar> / 2 ^ 53"
proof -
  from assms(1) pow2_pos [of "- 1022"] have nz: "x \<noteq> 0" by auto
  let ?a = "\<bar>x\<bar>"
  have err: "\<bar>round64_pos ?a - ?a\<bar> \<le> ?a / 2 ^ 53"
    by (rule round64_pos_error [OF assms(1)])
  have "?a / 2 ^ 53 \<le> ?a" by (simp add: field_simps)
  with err have "round64_pos ?a \<le> 2 * ?a" by linarith
  with assms(2) have fin: "\<not> pow2 1024 \<le> round64_pos ?a"
    by (simp add: pow2_numeral_bounds(5))
  show ?thesis
  proof (cases "0 < x")
    case True
    with fin err show ?thesis by (simp add: round64_def Let_def)
  next
    case False
    with nz have neg: "x < 0" by simp
    then have a: "?a = - x" by simp
    from fin neg nz have "round64 x = Num (- round64_pos (- x))"
      by (simp add: round64_def Let_def a)
    moreover have "\<bar>- round64_pos (- x) - x\<bar> = \<bar>round64_pos ?a - ?a\<bar>"
      by (simp add: a abs_minus_commute)
    ultimately show ?thesis using err by simp
  qed
qed

lemma round64_pos_fixed:
  assumes "x * pow2 (52 - max (floor_log2 x) (- 1022)) = of_int k"
  shows "round64_pos x = x"
proof -
  let ?e = "max (floor_log2 x) (- 1022)"
  have "pow2 (52 - ?e) * pow2 (?e - 52) = 1"
    using pow2_cancel [of "52 - ?e"] by simp
  then have "x * pow2 (52 - ?e) * pow2 (?e - 52) = x" by simp
  with assms show ?thesis
    by (simp add: round64_pos_def Let_def round_half_even_int)
qed

lemma round64_pos_int:
  assumes "0 < d" and "d \<le> 2 ^ 53"
  shows "round64_pos (of_int d) = of_int d"
proof -
  let ?x = "of_int d :: rat"
  let ?e = "floor_log2 ?x"
  from assms(1) have x: "0 < ?x" "1 \<le> ?x" by simp_all
  from floor_log2_bounds [OF x(1)] have lo: "pow2 ?e \<le> ?x" by simp
  have e0: "0 \<le> ?e"
    using x(2) assms(1) bitlen_bounds [OF assms(1)]
    by (simp add: floor_log2_def)
       (metis bitlen_eq_zero_iff bitlen_nonneg dual_order.strict_iff_order int_one_le_iff_zero_less not_le)
  then have mx: "max ?e (- 1022) = ?e" by simp
  have "?x \<le> 2 ^ 53"
    using assms(2) by (metis of_int_le_iff of_int_numeral of_int_power)
  with lo have "pow2 ?e \<le> pow2 53" by (simp add: pow2_def)
  then have e53: "?e \<le> 53"
    using pow2_strict_mono [of 53 ?e] by (cases "?e \<le> 53") auto
  have "\<exists>k. ?x * pow2 (52 - ?e) = of_int k"
  proof (cases "?e \<le> 52")
    case True
    then have "pow2 (52 - ?e) = of_int (2 ^ nat (52 - ?e))"
      by (simp add: pow2_def)
    then have "?x * pow2 (52 - ?e) = of_int (d * 2 ^ nat (52 - ?e))" by simp
    then show ?thesis by blast
  next
    case False
    with e53 have e: "?e = 53" by simp
    with lo have "2 ^ 53 \<le> ?x" by (simp add: pow2_def)
    with \<open>?x \<le> 2 ^ 53\<close> have top: "?x = 2 ^ 53" by simp
    have half: "pow2 (52 - ?e) = 1 / 2" by (simp only: e) (simp add: pow2_def)
    have "?x * pow2 (52 - ?e) = ?x * (1 / 2)" by (simp only: half)
    also have "\<dots> = 2 ^ 53 * (1 / 2)" by (simp only: top)
    also have "\<dots> = of_int (2 ^ 52)" by simp
    finally show ?thesis by blast
  qed
  then obtain k where "?x * pow2 (52 - max ?e (- 1022)) = of_int k"
    by (auto simp: mx)
  then show ?thesis by (rule round64_pos_fixed)
qed

text \<open>An integer of at most \<open>2 ^ 53\<close> in absolute value is a double.\<close>

lemma round64_int:
  assumes "\<bar>d\<bar> \<le> 2 ^ 53"
  shows "round64 (of_int d) = Num (of_int d)"
proof -
  have big: "\<not> pow2 1024 \<le> of_int k" if "0 < k" "k \<le> 2 ^ 53" for k :: int
  proof -
    from that have "(of_int k :: rat) \<le> 2 ^ 53"
      by (metis of_int_le_iff of_int_numeral of_int_power)
    moreover have "(2::rat) ^ 53 < 2 ^ 1024" by (rule power_strict_increasing) simp_all
    ultimately show ?thesis by (simp add: pow2_def)
  qed
  consider "d = 0" | "0 < d" | "d < 0" by linarith
  then show ?thesis
  proof cases
    case 1
    then show ?thesis by (simp add: round64_def)
  next
    case 2
    with assms have le: "d \<le> 2 ^ 53" by simp
    from round64_pos_int [OF 2 le] big [OF 2 le] 2 show ?thesis
      by (simp add: round64_def Let_def)
  next
    case 3
    with assms have p: "0 < - d" and le: "- d \<le> 2 ^ 53" by simp_all
    from round64_pos_int [OF p le] big [OF p le] 3 show ?thesis
      by (simp add: round64_def Let_def)
  qed
qed

lemma rat_of_int_le_pow53: "k \<le> 2 ^ 53 \<Longrightarrow> (of_int k :: rat) \<le> 2 ^ 53"
  by (metis of_int_le_iff of_int_numeral of_int_power)

text \<open>
  The quotient of two integers of at most \<open>2 ^ 53\<close> in absolute value, the divisor
  positive, is rounded once by the division and once by the multiplication by 100:
  the result is finite and within one part in \<open>2 ^ 51\<close> of the exact percentage.
\<close>

lemma percentage_error:
  assumes "d \<noteq> 0" and "\<bar>d\<bar> \<le> 2 ^ 53" and "p \<noteq> 0" and "\<bar>p\<bar> \<le> 2 ^ 53"
  shows "\<exists>q. js_times100 (js_div (Num (of_int d)) p) = Num q \<and>
           \<bar>q - 100 * of_int d / of_int p\<bar> \<le> \<bar>100 * of_int d / of_int p\<bar> / 2 ^ 51"
proof -
  let ?x = "of_int d / of_int p :: rat"
  define a where "a = \<bar>?x\<bar>"
  have int_abs: "1 \<le> \<bar>of_int k :: rat\<bar>" "\<bar>of_int k :: rat\<bar> \<le> 2 ^ 53"
    if "k \<noteq> 0" "\<bar>k\<bar> \<le> 2 ^ 53" for k :: int
  proof -
    from that(1) have "1 \<le> \<bar>k\<bar>" by simp
    then show "1 \<le> \<bar>of_int k :: rat\<bar>"
      by (metis of_int_1 of_int_abs of_int_le_iff)
    from that(2) show "\<bar>of_int k :: rat\<bar> \<le> 2 ^ 53"
      by (metis of_int_abs rat_of_int_le_pow53)
  qed
  note d1 = int_abs(1) [OF assms(1,2)] and d2 = int_abs(2) [OF assms(1,2)]
  note p1 = int_abs(1) [OF assms(3,4)] and p2 = int_abs(2) [OF assms(3,4)]
  have a: "a = \<bar>of_int d\<bar> / \<bar>of_int p\<bar>"
    by (simp add: a_def)
  have "1 / 2 ^ 53 \<le> \<bar>of_int d :: rat\<bar> / \<bar>of_int p\<bar>"
    using d1 p1 p2 by (intro frac_le) simp_all
  then have a_lo: "1 / 2 ^ 53 \<le> a" by (simp only: a)
  have "\<bar>of_int d :: rat\<bar> / \<bar>of_int p\<bar> \<le> 2 ^ 53 / 1"
    using d2 p1 by (intro frac_le) simp_all
  then have a_hi: "a \<le> 2 ^ 53" by (simp only: a div_by_1)
  from a_lo have a0: "0 \<le> a" by simp
  have "pow2 (- 1022) \<le> pow2 (- 53)" by (simp add: pow2_mono)
  also have "pow2 (- 53) = 1 / 2 ^ 53" by (simp add: pow2_def)
  finally have "pow2 (- 1022) \<le> a" using a_lo by linarith
  then have lo1: "pow2 (- 1022) \<le> \<bar>?x\<bar>" unfolding a_def .
  have big: "(2::rat) ^ 61 < 2 ^ 1023" by (rule power_strict_increasing) simp_all
  have p1023: "pow2 1023 = 2 ^ 1023" by (simp add: pow2_def)
  have "(2::rat) ^ 53 \<le> 2 ^ 61" by (rule power_increasing) simp_all
  with a_hi big have "a < pow2 1023" unfolding p1023 by linarith
  then have hi1: "\<bar>?x\<bar> < pow2 1023" unfolding a_def .
  from round64_error [OF lo1 hi1] obtain v where
    v: "round64 ?x = Num v" and ev: "\<bar>v - ?x\<bar> \<le> a / 2 ^ 53"
    unfolding a_def by blast
  define b where "b = \<bar>v\<bar>"
  have tri: "a \<le> b + \<bar>v - ?x\<bar>" "b \<le> a + \<bar>v - ?x\<bar>"
    unfolding a_def b_def by linarith+
  have small: "a / 2 ^ 53 \<le> a / 2" using a_lo by simp
  from tri(1) ev small have b_lo: "a / 2 \<le> b" by linarith
  from tri(2) ev small a_lo have b_hi: "b \<le> 2 * a" by linarith
  have "pow2 (- 1022) \<le> pow2 (- 54)" by (simp add: pow2_mono)
  also have "pow2 (- 54) = 1 / 2 ^ 54" by (simp add: pow2_def)
  also have "\<dots> \<le> b * 100" using a_lo b_lo by simp
  finally have "pow2 (- 1022) \<le> b * 100" .
  moreover have b100: "\<bar>v * 100\<bar> = b * 100" by (simp add: b_def abs_mult)
  ultimately have lo2: "pow2 (- 1022) \<le> \<bar>v * 100\<bar>" by simp
  have "b * 100 \<le> 2 ^ 61" using a_hi b_hi by simp
  with big have "b * 100 < pow2 1023" unfolding p1023 by linarith
  with b100 have hi2: "\<bar>v * 100\<bar> < pow2 1023" by simp
  from round64_error [OF lo2 hi2] obtain q where
    q: "round64 (v * 100) = Num q" and eq: "\<bar>q - v * 100\<bar> \<le> b * 100 / 2 ^ 53"
    unfolding b100 by blast
  from assms(3) v q have res: "js_times100 (js_div (Num (of_int d)) p) = Num q"
    by simp
  have "q - 100 * ?x = (q - v * 100) + 100 * (v - ?x)"
    by (simp add: algebra_simps)
  then have "\<bar>q - 100 * ?x\<bar> \<le> \<bar>q - v * 100\<bar> + \<bar>100 * (v - ?x)\<bar>"
    by (simp only: abs_triangle_ineq)
  also have "\<bar>100 * (v - ?x)\<bar> = 100 * \<bar>v - ?x\<bar>"
    by (simp only: abs_mult abs_numeral)
  also have "\<bar>q - v * 100\<bar> + 100 * \<bar>v - ?x\<bar> \<le> b * 100 / 2 ^ 53 + 100 * (a / 2 ^ 53)"
    using eq ev by (intro add_mono mult_left_mono) simp_all
  also have "\<dots> \<le> 100 * a / 2 ^ 51"
    using b_hi a0 by simp
  finally have "\<bar>q - 100 * ?x\<bar> \<le> 100 * a / 2 ^ 51" .
  moreover have "100 * a = \<bar>100 * of_int d / of_int p\<bar>"
    by (simp add: a_def abs_mult)
  ultimately have "\<bar>q - 100 * of_int d / of_int p\<bar> \<le> \<bar>100 * of_int d / of_int p\<bar> / 2 ^ 51"
    by simp
  with res show ?thesis by blast
qed

text \<open>Rules that evaluate the rounding of a given rational number.\<close>

lemma floor_rat_numeral: "\<lfloor>(numeral a / numeral b :: rat)\<rfloor> = numeral a div numeral b"
  using floor_divide_of_int_eq [of "numeral a" "numeral b", where ?'a = rat] by simp

lemmas round64_eval = round64_def round64_pos_def round_half_even_def floor_log2_def pow2_def
  compute_bitlen floor_rat_numeral Let_def

section \<open>Facts about the string operations\<close>

lemma split_on_nonempty: "split_on sep s \<noteq> []"
  by (induction s) (auto split: list.splits)

lemma length_split_on: "length (split_on sep s) = Suc (length (filter sep s))"
  by (induction s) (auto split: list.splits simp: split_on_nonempty)

lemma concat_split_on: "concat (split_on sep s) = filter (\<lambda>c. \<not> sep c) s"
  by (induction s) (auto split: list.splits)

lemma split_on_no_sep: "f \<in> set (split_on sep s) \<Longrightarrow> c \<in> set f \<Longrightarrow> \<not> sep c"
proof (induction s arbitrary: f)
  case Nil
  then show ?case by simp
next
  case (Cons a s)
  show ?case
  proof (cases "sep a")
    case True
    with Cons show ?thesis by auto
  next
    case False
    obtain g gs where g: "split_on sep s = g # gs"
      using split_on_nonempty [of sep s] by (cases "split_on sep s") auto
    with False Cons.prems have "f = a # g \<or> f \<in> set gs" by auto
    then show ?thesis
    proof
      assume "f = a # g"
      with Cons.prems(2) have "c = a \<or> c \<in> set g" by auto
      then show ?thesis
        using False Cons.IH [of g] g by auto
    next
      assume "f \<in> set gs"
      then show ?thesis
        using Cons.IH [of f] Cons.prems(2) g by auto
    qed
  qed
qed

lemma trim_decompose:
  "\<exists>l r. s = l @ trim s @ r \<and> list_all is_ws l \<and> list_all is_ws r"
proof -
  let ?l = "takeWhile is_ws s"
  let ?m = "dropWhile is_ws s"
  let ?r = "rev (takeWhile is_ws (rev ?m))"
  have "rev (takeWhile is_ws (rev ?m) @ dropWhile is_ws (rev ?m)) = ?m"
    by (simp only: takeWhile_dropWhile_id rev_rev_ident)
  then have m: "?m = trim s @ ?r"
    by (simp only: trim_def rev_append)
  have "s = ?l @ ?m" by simp
  with m have "s = ?l @ trim s @ ?r" by simp
  moreover have "list_all is_ws ?l"
    by (simp add: list_all_iff) (metis set_takeWhileD)
  moreover have "list_all is_ws ?r"
    by (simp add: list_all_iff) (metis set_takeWhileD)
  ultimately show ?thesis by blast
qed

lemma trim_no_leading_ws: "trim s \<noteq> [] \<Longrightarrow> \<not> is_ws (hd (trim s))"
proof -
  assume ne: "trim s \<noteq> []"
  let ?m = "dropWhile is_ws s"
  have "trim s = rev (dropWhile is_ws (rev ?m))" by (simp add: trim_def)
  then have eq: "?m = trim s @ rev (takeWhile is_ws (rev ?m))"
    by (metis rev_append rev_rev_ident takeWhile_dropWhile_id)
  with ne have "?m \<noteq> []" by (metis append_is_Nil_conv)
  then have "\<not> is_ws (hd ?m)" by (rule hd_dropWhile)
  moreover from eq ne have "hd ?m = hd (trim s)" by (metis hd_append2)
  ultimately show ?thesis by simp
qed

lemma trim_no_trailing_ws: "trim s \<noteq> [] \<Longrightarrow> \<not> is_ws (last (trim s))"
proof -
  assume ne: "trim s \<noteq> []"
  let ?d = "dropWhile is_ws (rev (dropWhile is_ws s))"
  from ne have "?d \<noteq> []" by (simp add: trim_def)
  then have "\<not> is_ws (hd ?d)" by (rule hd_dropWhile)
  moreover have "last (trim s) = hd ?d"
    using \<open>?d \<noteq> []\<close> by (simp add: trim_def last_rev)
  ultimately show ?thesis by simp
qed

lemma trim_empty_iff: "trim s = [] \<longleftrightarrow> list_all is_ws s"
proof
  assume "trim s = []"
  with trim_decompose [of s] show "list_all is_ws s"
    by (metis append_Nil list_all_append)
next
  assume "list_all is_ws s"
  then have "dropWhile is_ws s = []" by (induction s) auto
  then show "trim s = []" by (simp only: trim_def rev.simps dropWhile.simps)
qed

section \<open>The restore keys\<close>

text \<open>Rules that evaluate the string operations and the prefixes on literals.\<close>

lemmas string_eval = js_def trim_def is_ws_def is_crlf_def
lemmas prefix_eval = linux_env_def RPC_CACHE_PREFIX_def ARTIFACTS_CACHE_PREFIX_def
  GAS_SNAPSHOT_CACHE_PREFIX_def CACHE_PREFIX_def

text \<open>
  Claim C4 says that duplicate fragments are discarded. The function has no step that
  removes duplicates: on the input of two lines \<^verbatim>\<open>x\<close> and \<^verbatim>\<open>x\<close> the key for \<^verbatim>\<open>x\<close> is listed
  twice.
\<close>

theorem getRestoreKeys_keeps_duplicates:
  "getRestoreKeys linux_env (Some (js ''x'' @ [10] @ js ''x'')) RPC =
     [js ''linux-foundry-chain-fork-x'', js ''linux-foundry-chain-fork-x'',
      js ''linux-foundry-chain-fork-'']"
  by (simp add: getRestoreKeys_def string_eval prefix_eval)

text \<open>
  Claim C4, amended: the result is never empty and ends with the bare prefix of the
  type; for an absent or empty input it is the bare prefix alone; for any other input
  the keys before the last one are, in the order of the input, the prefix followed by
  the trimmed line, for each line between line breaks (CR or LF) that is not blank.
  Blank lines are dropped; equal lines are all kept.
\<close>

theorem getRestoreKeys_shape:
  "getRestoreKeys e inp t \<noteq> [] \<and>
   last (getRestoreKeys e inp t) = getCachePrefix e t \<and>
   (inp = None \<or> inp = Some [] \<longrightarrow> getRestoreKeys e inp t = [getCachePrefix e t]) \<and>
   (\<forall>s. inp = Some s \<longrightarrow>
      butlast (getRestoreKeys e inp t) =
        map (\<lambda>l. getCachePrefix e t @ trim l)
          (filter (\<lambda>l. \<not> list_all is_ws l) (split_on is_crlf s)))"
proof -
  have m: "map (\<lambda>i. p @ i) (filter (\<lambda>i. i \<noteq> []) (map trim ls)) =
           map (\<lambda>l. p @ trim l) (filter (\<lambda>l. \<not> list_all is_ws l) ls)" for p :: jsstring and ls
    by (induction ls) (auto simp: trim_empty_iff)
  show ?thesis
  proof (cases inp)
    case None
    then show ?thesis by (simp add: getRestoreKeys_def)
  next
    case (Some s)
    show ?thesis
    proof (cases "s = []")
      case True
      with Some show ?thesis by (simp add: getRestoreKeys_def)
    next
      case False
      with Some show ?thesis by (simp add: getRestoreKeys_def Let_def m butlast_append)
    qed
  qed
qed

theorem getRestoreKeys_shape_witness:
  "last (getRestoreKeys linux_env (Some (js ''  a  '' @ [10, 10] @ js '' b '' @ [10])) RPC) =
     js ''linux-foundry-chain-fork-'' \<and>
   butlast (getRestoreKeys linux_env (Some (js ''  a  '' @ [10, 10] @ js '' b '' @ [10])) RPC) =
     [js ''linux-foundry-chain-fork-a'', js ''linux-foundry-chain-fork-b''] \<and>
   getRestoreKeys linux_env (Some []) RPC = [js ''linux-foundry-chain-fork-'']"
  using getRestoreKeys_shape [of linux_env "Some (js ''  a  '' @ [10, 10] @ js '' b '' @ [10])" RPC]
    getRestoreKeys_shape [of linux_env "Some []" RPC]
  by (simp add: string_eval prefix_eval)

section \<open>Restoring and saving a cache\<close>

lemmas cache_eval = restoreCache_def saveCache_def getPrimaryKey_def getRestoreKeys_def
  fixed_store_def fresh_world_def options_with_key_def saveState_def getState_def
  ensureDirectoryExists_def fileExists_def

lemmas cache_eval2 = cache_eval hit_store_def warm_store_def store_answer_def
  resolved_paths_def recovered_key_def Let_def

lemma ensureDirectoryExists_frame:
  "run_state (snd (ensureDirectoryExists x w p)) = run_state w"
  "store_calls (snd (ensureDirectoryExists x w p)) = store_calls w"
  by (simp_all add: ensureDirectoryExists_def)

lemma ensure_all_frame:
  "run_state (fold (\<lambda>cachePath v. snd (ensureDirectoryExists x v cachePath)) ps w) = run_state w"
  "store_calls (fold (\<lambda>cachePath v. snd (ensureDirectoryExists x v cachePath)) ps w) = store_calls w"
  by (induction ps arbitrary: w) (simp_all add: ensureDirectoryExists_frame)

lemma fileExists_eq: "fileExists w = existsSync w"
  by (simp add: fun_eq_iff fileExists_def)

lemma saveCache_unfold:
  "saveCache x e w options type =
     (if \<not> enabled options then (False, w)
      else if \<not> list_all (existsSync w) (resolved_paths e options type) then (False, w)
      else if recovered_key e w options type = [] then (False, w)
      else if recovered_key e w options type = getState w CacheMatchedKey then (False, w)
      else (case cache_saveCache x (resolved_paths e options type) (recovered_key e w options type) of
              SaveThrows \<Rightarrow>
                (False, w\<lparr>store_calls := store_calls w @
                   [SaveCall (resolved_paths e options type) (recovered_key e w options type)]\<rparr>)
            | SaveReturns cacheId \<Rightarrow>
                (cacheId \<noteq> - 1, w\<lparr>store_calls := store_calls w @
                   [SaveCall (resolved_paths e options type) (recovered_key e w options type)]\<rparr>)))"
  by (simp add: saveCache_def Let_def resolved_paths_def recovered_key_def fileExists_eq
      split: save_response.splits)

text \<open>
  Claim C1 says that a match on a restore key only (a matched key that differs from
  the primary key) is recorded with \<^verbatim>\<open>cacheHit = false\<close>. The function sets the flag for
  every key the store returns: with the primary key \<^verbatim>\<open>linux-foundry-chain-fork-new\<close> and
  the store answering \<^verbatim>\<open>linux-foundry-chain-fork-old\<close>, the flag is set.
\<close>

theorem restoreCache_prefix_match_is_hit:
  "cacheHit (fst (restoreCache
      (fixed_store (RestoreReturns (Some (js ''linux-foundry-chain-fork-old''))) SaveThrows)
      linux_env fresh_world (options_with_key (js ''new'')) RPC)) = True \<and>
   matchedKey (fst (restoreCache
      (fixed_store (RestoreReturns (Some (js ''linux-foundry-chain-fork-old''))) SaveThrows)
      linux_env fresh_world (options_with_key (js ''new'')) RPC)) =
     Some (js ''linux-foundry-chain-fork-old'') \<and>
   primaryKey (fst (restoreCache
      (fixed_store (RestoreReturns (Some (js ''linux-foundry-chain-fork-old''))) SaveThrows)
      linux_env fresh_world (options_with_key (js ''new'')) RPC)) =
     js ''linux-foundry-chain-fork-new''"
  by (simp add: cache_eval string_eval prefix_eval Let_def)

text \<open>
  Claim C1, amended: for an enabled restore and every answer of the store, the result
  carries the derived primary key, which is also saved to the run state, and
  \<^verbatim>\<open>cacheHit\<close> is true if and only if the store returned a non-empty matched key, be it
  the primary key or not. Such a key is recorded in \<^verbatim>\<open>matchedKey\<close> and saved to the run
  state; without a hit (no match, or the store throwing) \<^verbatim>\<open>matchedKey\<close> is undefined.
\<close>

theorem restoreCache_hit_iff_match:
  assumes "enabled options"
    and "restoreCache x e w options type = (r, w')"
  shows "primaryKey r = getPrimaryKey e (primaryKey_in options) type \<and>
         getState w' CachePrimaryKey = primaryKey r \<and>
         (cacheHit r \<longleftrightarrow>
            (\<exists>mk. store_answer x e options type = RestoreReturns (Some mk) \<and> mk \<noteq> [])) \<and>
         (\<forall>mk. store_answer x e options type = RestoreReturns (Some mk) \<and> mk \<noteq> [] \<longrightarrow>
            matchedKey r = Some mk \<and> getState w' CacheMatchedKey = mk) \<and>
         (\<not> cacheHit r \<longrightarrow> matchedKey r = None)"
  using assms
  by (auto simp: restoreCache_def store_answer_def Let_def saveState_def getState_def
      resolved_paths_def ensure_all_frame
      split: restore_response.splits option.splits if_splits)

theorem restoreCache_hit_iff_match_witness:
  "cacheHit (fst (restoreCache warm_store linux_env fresh_world (options_with_key (js ''new'')) RPC)) \<and>
   matchedKey (fst (restoreCache warm_store linux_env fresh_world (options_with_key (js ''new'')) RPC)) =
     Some (js ''linux-foundry-chain-fork-old'') \<and>
   \<not> cacheHit (fst (restoreCache (fixed_store (RestoreReturns None) SaveThrows) linux_env fresh_world
         (options_with_key (js ''new'')) RPC)) \<and>
   \<not> cacheHit (fst (restoreCache (fixed_store RestoreThrows SaveThrows) linux_env fresh_world
         (options_with_key (js ''new'')) RPC))"
  using restoreCache_hit_iff_match [of "options_with_key (js ''new'')" warm_store linux_env fresh_world RPC
      "fst (restoreCache warm_store linux_env fresh_world (options_with_key (js ''new'')) RPC)"
      "snd (restoreCache warm_store linux_env fresh_world (options_with_key (js ''new'')) RPC)"]
    restoreCache_hit_iff_match [of "options_with_key (js ''new'')"
      "fixed_store (RestoreReturns None) SaveThrows" linux_env fresh_world RPC
      "fst (restoreCache (fixed_store (RestoreReturns None) SaveThrows) linux_env fresh_world (options_with_key (js ''new'')) RPC)"
      "snd (restoreCache (fixed_store (RestoreReturns None) SaveThrows) linux_env fresh_world (options_with_key (js ''new'')) RPC)"]
    restoreCache_hit_iff_match [of "options_with_key (js ''new'')"
      "fixed_store RestoreThrows SaveThrows" linux_env fresh_world RPC
      "fst (restoreCache (fixed_store RestoreThrows SaveThrows) linux_env fresh_world (options_with_key (js ''new'')) RPC)"
      "snd (restoreCache (fixed_store RestoreThrows SaveThrows) linux_env fresh_world (options_with_key (js ''new'')) RPC)"]
  by (simp add: store_answer_def fixed_store_def warm_store_def options_with_key_def js_def)

text \<open>
  Claim C9: an enabled save for which one of the resolved cache paths does not exist
  returns false and leaves the world as it was; in particular the list of calls to
  the store is unchanged, so the save operation of the store is not invoked.
\<close>

theorem saveCache_missing_path:
  assumes "enabled options"
    and "\<exists>p \<in> set (resolved_paths e options type). \<not> existsSync w p"
  shows "saveCache x e w options type = (False, w)"
  using assms
  by (auto simp: saveCache_unfold list_all_iff)

theorem saveCache_missing_path_witness:
  "saveCache hit_store linux_env fresh_world (options_with_key (js ''new'')) RPC = (False, fresh_world)"
  using saveCache_missing_path [of "options_with_key (js ''new'')" linux_env RPC fresh_world hit_store]
  by (simp add: options_with_key_def resolved_paths_def fresh_world_def)

text \<open>
  Claim C3, in two parts. First: when a restore recorded a matched key equal to its
  primary key, a save whose run state is the one the restore left returns false and
  leaves the world as it was, so the store is not called. Second: an enabled save
  whose paths all exist, whose recovered primary key is not empty and whose run state
  holds a different matched key (or none) calls the save operation of the store once,
  with the resolved paths and the recovered key, and returns true exactly when the
  store returns an id other than -1.
\<close>

theorem saveCache_skips_on_exact_hit_only:
  "(restoreCache x e w options type = (r, w1) \<and> matchedKey r = Some (primaryKey r) \<and>
      run_state w2 = run_state w1 \<longrightarrow>
      saveCache x2 e2 w2 options2 type2 = (False, w2)) \<and>
   (enabled options2 \<and> list_all (existsSync w2) (resolved_paths e2 options2 type2) \<and>
      recovered_key e2 w2 options2 type2 \<noteq> [] \<and>
      getState w2 CacheMatchedKey \<noteq> recovered_key e2 w2 options2 type2 \<longrightarrow>
      store_calls (snd (saveCache x2 e2 w2 options2 type2)) =
        store_calls w2 @ [SaveCall (resolved_paths e2 options2 type2) (recovered_key e2 w2 options2 type2)] \<and>
      fst (saveCache x2 e2 w2 options2 type2) =
        (\<exists>cacheId. cache_saveCache x2 (resolved_paths e2 options2 type2)
                      (recovered_key e2 w2 options2 type2) = SaveReturns cacheId \<and> cacheId \<noteq> - 1))"
proof (intro conjI impI)
  assume a: "restoreCache x e w options type = (r, w1) \<and> matchedKey r = Some (primaryKey r) \<and>
      run_state w2 = run_state w1"
  then have "getState w1 CachePrimaryKey = primaryKey r \<and> getState w1 CacheMatchedKey = primaryKey r
      \<and> primaryKey r \<noteq> []"
    by (auto simp: restoreCache_def Let_def saveState_def getState_def ensure_all_frame
        split: restore_response.splits option.splits if_splits)
  moreover from a have "getState w2 = getState w1"
    by (auto simp: getState_def fun_eq_iff)
  ultimately show "saveCache x2 e2 w2 options2 type2 = (False, w2)"
    by (simp add: saveCache_unfold recovered_key_def)
next
  assume b: "enabled options2 \<and> list_all (existsSync w2) (resolved_paths e2 options2 type2) \<and>
      recovered_key e2 w2 options2 type2 \<noteq> [] \<and>
      getState w2 CacheMatchedKey \<noteq> recovered_key e2 w2 options2 type2"
  then show "store_calls (snd (saveCache x2 e2 w2 options2 type2)) =
        store_calls w2 @ [SaveCall (resolved_paths e2 options2 type2) (recovered_key e2 w2 options2 type2)]"
    by (auto simp: saveCache_unfold split: save_response.splits)
  from b show "fst (saveCache x2 e2 w2 options2 type2) =
        (\<exists>cacheId. cache_saveCache x2 (resolved_paths e2 options2 type2)
                      (recovered_key e2 w2 options2 type2) = SaveReturns cacheId \<and> cacheId \<noteq> - 1)"
    by (auto simp: saveCache_unfold split: save_response.splits)
qed

theorem saveCache_skips_on_exact_hit_only_witness:
  "saveCache hit_store linux_env
      (snd (restoreCache hit_store linux_env fresh_world (options_with_key (js ''new'')) RPC))
      (options_with_key (js ''new'')) RPC =
     (False, snd (restoreCache hit_store linux_env fresh_world (options_with_key (js ''new'')) RPC)) \<and>
   store_calls (snd (saveCache warm_store linux_env
      (snd (restoreCache warm_store linux_env fresh_world (options_with_key (js ''new'')) RPC))
      (options_with_key (js ''new'')) RPC)) =
     [RestoreCall [js ''/home/user/.foundry/cache/rpc''] (js ''linux-foundry-chain-fork-new'')
        [js ''linux-foundry-chain-fork-''],
      SaveCall [js ''/home/user/.foundry/cache/rpc''] (js ''linux-foundry-chain-fork-new'')] \<and>
   fst (saveCache warm_store linux_env
      (snd (restoreCache warm_store linux_env fresh_world (options_with_key (js ''new'')) RPC))
      (options_with_key (js ''new'')) RPC)"
  using saveCache_skips_on_exact_hit_only
      [where x = hit_store and e = linux_env and w = fresh_world
         and options = "options_with_key (js ''new'')" and type = RPC
         and r = "fst (restoreCache hit_store linux_env fresh_world (options_with_key (js ''new'')) RPC)"
         and ?w1.0 = "snd (restoreCache hit_store linux_env fresh_world (options_with_key (js ''new'')) RPC)"
         and ?w2.0 = "snd (restoreCache hit_store linux_env fresh_world (options_with_key (js ''new'')) RPC)"
         and ?x2.0 = hit_store and ?e2.0 = linux_env
         and ?options2.0 = "options_with_key (js ''new'')" and ?type2.0 = RPC]
    saveCache_skips_on_exact_hit_only
      [where x = warm_store and e = linux_env and w = fresh_world
         and options = "options_with_key (js ''new'')" and type = RPC
         and r = "fst (restoreCache warm_store linux_env fresh_world (options_with_key (js ''new'')) RPC)"
         and ?w1.0 = "snd (restoreCache warm_store linux_env fresh_world (options_with_key (js ''new'')) RPC)"
         and ?w2.0 = "snd (restoreCache warm_store linux_env fresh_world (options_with_key (js ''new'')) RPC)"
         and ?x2.0 = warm_store and ?e2.0 = linux_env
         and ?options2.0 = "options_with_key (js ''new'')" and ?type2.0 = RPC]
  by (simp add: cache_eval2 string_eval prefix_eval)

section \<open>Facts about property tables and the comparator\<close>

lemma get_prop_set_prop: "get_prop (set_prop k v ps) = (get_prop ps)(k \<mapsto> v)"
  by (induction ps) (auto simp: get_prop_def fun_eq_iff)

lemma keys_set_prop:
  "keys (set_prop k v ps) = (if k \<in> set (keys ps) then keys ps else keys ps @ [k])"
  by (induction ps) (auto simp: keys_def)

lemma distinct_set_prop: "distinct (keys ps) \<Longrightarrow> distinct (keys (set_prop k v ps))"
  by (simp add: keys_set_prop)

lemma set_prop_in_place:
  "k \<notin> set (keys pre) \<Longrightarrow> set_prop k v (pre @ (k, c) # es) = pre @ (k, v) # es"
  by (induction pre) (auto simp: keys_def)

lemma lookup_own: "get_prop ps k = Some v \<Longrightarrow> lookup ps k = Own v"
  by (simp add: lookup_def)

lemma lookup_missing:
  "get_prop ps k = None \<Longrightarrow> k \<notin> set Object_prototype_names \<Longrightarrow> lookup ps k = Missing"
  by (simp add: lookup_def)

lemma lookup_inherited:
  "get_prop ps k = None \<Longrightarrow> k \<in> set Object_prototype_names \<Longrightarrow> lookup ps k = Inherited"
  by (simp add: lookup_def)

lemma compare_fold:
  "distinct (keys (pre @ es)) \<Longrightarrow>
   fold (\<lambda>(testName, current) result.
           case lookup pps testName of
             Missing \<Rightarrow> result
           | Inherited \<Rightarrow>
               result\<lparr>testResults :=
                 set_prop testName
                   (current\<lparr>comparison :=
                      Some \<lparr>previous = None, change = Some NaN,
                            changePercentage = Some NaN\<rparr>\<rparr>)
                   (testResults result)\<rparr>
           | Own prev \<Rightarrow>
               (let chg = round64 (of_int (gasUsed current - gasUsed prev));
                    pct = js_times100 (js_div chg (gasUsed prev))
                in result\<lparr>testResults :=
                     set_prop testName
                       (current\<lparr>comparison :=
                          Some \<lparr>previous = Some (gasUsed prev),
                                change = Some chg,
                                changePercentage = Some pct\<rparr>\<rparr>)
                       (testResults result)\<rparr>))
      es (r\<lparr>testResults := pre @ es\<rparr>) =
   r\<lparr>testResults := pre @ map (compared pps) es\<rparr>"
proof (induction es arbitrary: pre)
  case Nil
  then show ?case by simp
next
  case (Cons entry es)
  obtain n c where entry: "entry = (n, c)" by (cases entry)
  from Cons.prems entry have fresh: "n \<notin> set (keys pre)"
    by (auto simp: keys_def)
  have step: "distinct (keys ((pre @ [(n, v)]) @ es))" for v
    using Cons.prems entry by (simp add: keys_def)
  show ?case
  proof (cases "lookup pps n")
    case Missing
    from Cons.IH [OF step [of c]] Missing entry show ?thesis
      by (simp add: compared_def)
  next
    case Inherited
    let ?v = "c\<lparr>comparison :=
                Some \<lparr>previous = None, change = Some NaN, changePercentage = Some NaN\<rparr>\<rparr>"
    from Cons.IH [OF step [of ?v]] Inherited entry fresh show ?thesis
      by (simp add: compared_def set_prop_in_place)
  next
    case (Own prev)
    let ?v = "c\<lparr>comparison :=
                Some \<lparr>previous = Some (gasUsed prev),
                      change = Some (round64 (of_int (gasUsed c - gasUsed prev))),
                      changePercentage =
                        Some (js_times100
                                (js_div (round64 (of_int (gasUsed c - gasUsed prev)))
                                   (gasUsed prev)))\<rparr>\<rparr>"
    from Cons.IH [OF step [of ?v]] Own entry fresh show ?thesis
      by (simp add: compared_def Let_def set_prop_in_place)
  qed
qed

lemma compare_as_map:
  assumes "distinct (keys (testResults current))"
  shows "compareGasSnapshots current prev =
         current\<lparr>testResults := map (compared (testResults prev)) (testResults current)\<rparr>"
  using compare_fold [of "[]" "testResults current" "testResults prev" current] assms
  by (simp add: compareGasSnapshots_def)

lemma keys_map_compared: "keys (map (compared pps) es) = keys es"
  by (induction es) (auto simp: keys_def compared_def split: looked_up.splits)

lemma get_prop_map_compared:
  "get_prop (map (compared pps) es) n =
     (case get_prop es n of
        None \<Rightarrow> None
      | Some c \<Rightarrow> Some (snd (compared pps (n, c))))"
  by (induction es) (auto simp: get_prop_def compared_def split: looked_up.splits)

lemma in_keys_iff: "n \<in> set (keys ps) \<longleftrightarrow> get_prop ps n \<noteq> None"
  by (simp add: keys_def get_prop_def map_of_eq_None_iff)

lemma js_percent_zero:
  "js_times100 (js_div (Num a) 0) =
     (if a = 0 then NaN else if 0 < a then PosInfinity else NegInfinity)"
  by simp

lemmas gas_eval = snapshot_now_def snapshot_before_def snapshot_zero_def snapshot_183_def
  snapshot_160_def snapshot_constructor_def snapshot_empty_def plain_def keys_def get_prop_def
  lookup_def Object_prototype_names_def js_def

text \<open>
  The comparator on the names it handles as meant. The result lists exactly the entry
  names of the current snapshot, in the same order, and a name that is not in the
  current snapshot is not in the result. An entry whose name is an own property of the
  previous table gets a comparison. An entry whose name is neither an own property of
  the previous table nor a member of \<^verbatim>\<open>Object.prototype\<close> is the entry of the current
  snapshot as it was.
\<close>

lemma compareGasSnapshots_own_names:
  assumes "distinct (keys (testResults current))"
  shows "keys (testResults (compareGasSnapshots current prev)) = keys (testResults current) \<and>
         (\<forall>n. n \<in> set (keys (testResults current)) \<and> get_prop (testResults prev) n \<noteq> None \<longrightarrow>
            (\<exists>t cmp. get_prop (testResults (compareGasSnapshots current prev)) n = Some t \<and>
               comparison t = Some cmp)) \<and>
         (\<forall>n. get_prop (testResults prev) n = None \<and> n \<notin> set Object_prototype_names \<longrightarrow>
            get_prop (testResults (compareGasSnapshots current prev)) n =
              get_prop (testResults current) n) \<and>
         (\<forall>n. n \<notin> set (keys (testResults current)) \<longrightarrow>
            get_prop (testResults (compareGasSnapshots current prev)) n = None)"
  using assms
  by (auto simp: compare_as_map keys_map_compared get_prop_map_compared compared_def in_keys_iff
      lookup_def split: option.splits)

section \<open>The comparator: theorems\<close>

text \<open>
  Claim C2 says that the percentage is left undefined when the previous value is 0.
  With a current value of 20000 and a previous value of 0 the comparator stores the
  percentage \<^verbatim>\<open>Infinity\<close>.
\<close>

theorem compareGasSnapshots_divides_by_zero:
  "get_prop (testResults (compareGasSnapshots snapshot_now snapshot_zero)) (js ''a'') =
     Some \<lparr>gasUsed = 20000,
           comparison = Some \<lparr>previous = Some 0, change = Some (Num 20000),
                              changePercentage = Some PosInfinity\<rparr>\<rparr>"
proof -
  have "round64 (of_int 20000) = Num (of_int 20000)"
    by (rule round64_int) simp
  then show ?thesis
    by (simp add: compareGasSnapshots_def gas_eval)
qed

text \<open>
  Claim C2, amended: for every entry name that is an own property of both tables the
  comparator attaches a comparison whose \<^verbatim>\<open>previous\<close> is the previous value, whose
  \<^verbatim>\<open>change\<close> is the double of the current value minus the previous value and whose
  \<^verbatim>\<open>changePercentage\<close> is the double of \<^verbatim>\<open>(change / previous) * 100\<close>, the division and
  the multiplication each rounding to the nearest double. When the difference is at
  most \<open>2 ^ 53\<close> in absolute value, \<^verbatim>\<open>change\<close> is the exact difference. When moreover
  the previous value is not 0 and at most \<open>2 ^ 53\<close> in absolute value, the percentage is
  a finite number within one part in \<open>2 ^ 51\<close> of 100 * change / previous; it is not
  that quotient itself in general. There is no guard for a previous value of 0: the
  comparison is attached all the same and \<^verbatim>\<open>changePercentage\<close> is the result of the
  division by zero, \<^verbatim>\<open>NaN\<close> when the change is 0 as well, \<^verbatim>\<open>Infinity\<close> or \<^verbatim>\<open>-Infinity\<close>
  otherwise. An object has each key once, which is the hypothesis on the keys.
\<close>

theorem compareGasSnapshots_comparison:
  assumes "distinct (keys (testResults current))"
    and "get_prop (testResults current) n = Some c"
    and "get_prop (testResults prev) n = Some p"
  shows "\<exists>t cmp. get_prop (testResults (compareGasSnapshots current prev)) n = Some t \<and>
           gasUsed t = gasUsed c \<and> comparison t = Some cmp \<and>
           previous cmp = Some (gasUsed p) \<and>
           change cmp = Some (round64 (of_int (gasUsed c - gasUsed p))) \<and>
           changePercentage cmp =
             Some (js_times100 (js_div (round64 (of_int (gasUsed c - gasUsed p))) (gasUsed p))) \<and>
           (\<bar>gasUsed c - gasUsed p\<bar> \<le> 2 ^ 53 \<longrightarrow>
              change cmp = Some (Num (of_int (gasUsed c - gasUsed p)))) \<and>
           (\<bar>gasUsed c - gasUsed p\<bar> \<le> 2 ^ 53 \<and> gasUsed p \<noteq> 0 \<and> \<bar>gasUsed p\<bar> \<le> 2 ^ 53 \<longrightarrow>
              (\<exists>q. changePercentage cmp = Some (Num q) \<and>
                 \<bar>q - 100 * of_int (gasUsed c - gasUsed p) / of_int (gasUsed p)\<bar> \<le>
                 \<bar>100 * of_int (gasUsed c - gasUsed p) / of_int (gasUsed p)\<bar> / 2 ^ 51)) \<and>
           (\<bar>gasUsed c - gasUsed p\<bar> \<le> 2 ^ 53 \<and> gasUsed p = 0 \<longrightarrow>
              changePercentage cmp =
                Some (if gasUsed c = 0 then NaN
                      else if 0 < gasUsed c then PosInfinity else NegInfinity))"
proof -
  let ?d = "gasUsed c - gasUsed p"
  let ?chg = "round64 (of_int ?d)"
  let ?pct = "js_times100 (js_div ?chg (gasUsed p))"
  let ?cmp = "\<lparr>previous = Some (gasUsed p), change = Some ?chg, changePercentage = Some ?pct\<rparr>"
  let ?t = "c\<lparr>comparison := Some ?cmp\<rparr>"
  from assms have t: "get_prop (testResults (compareGasSnapshots current prev)) n = Some ?t"
    by (simp add: compare_as_map get_prop_map_compared compared_def lookup_own)
  have exact: "?chg = Num (of_int ?d)" if "\<bar>?d\<bar> \<le> 2 ^ 53"
    using that by (rule round64_int)
  have finite: "\<exists>q. ?pct = Num q \<and>
      \<bar>q - 100 * of_int ?d / of_int (gasUsed p)\<bar> \<le> \<bar>100 * of_int ?d / of_int (gasUsed p)\<bar> / 2 ^ 51"
    if "\<bar>?d\<bar> \<le> 2 ^ 53" "gasUsed p \<noteq> 0" "\<bar>gasUsed p\<bar> \<le> 2 ^ 53"
  proof (cases "?d = 0")
    case True
    with that(2) show ?thesis by (simp add: round64_def)
  next
    case False
    from percentage_error [OF False that] show ?thesis
      by (simp only: exact [OF that(1)])
  qed
  have zero: "?pct = (if gasUsed c = 0 then NaN else if 0 < gasUsed c then PosInfinity else NegInfinity)"
    if "\<bar>?d\<bar> \<le> 2 ^ 53" "gasUsed p = 0"
    using that exact [OF that(1)] by simp
  have sel: "gasUsed ?t = gasUsed c" "comparison ?t = Some ?cmp"
    "previous ?cmp = Some (gasUsed p)" "change ?cmp = Some ?chg"
    "changePercentage ?cmp = Some ?pct"
    by simp_all
  have c1: "\<bar>?d\<bar> \<le> 2 ^ 53 \<longrightarrow> change ?cmp = Some (Num (of_int ?d))"
  proof (rule impI)
    assume h: "\<bar>?d\<bar> \<le> 2 ^ 53"
    from sel(4) show "change ?cmp = Some (Num (of_int ?d))"
      by (simp only: exact [OF h])
  qed
  have c2: "\<bar>?d\<bar> \<le> 2 ^ 53 \<and> gasUsed p \<noteq> 0 \<and> \<bar>gasUsed p\<bar> \<le> 2 ^ 53 \<longrightarrow>
      (\<exists>q. changePercentage ?cmp = Some (Num q) \<and>
         \<bar>q - 100 * of_int ?d / of_int (gasUsed p)\<bar> \<le>
         \<bar>100 * of_int ?d / of_int (gasUsed p)\<bar> / 2 ^ 51)"
  proof (rule impI)
    assume h: "\<bar>?d\<bar> \<le> 2 ^ 53 \<and> gasUsed p \<noteq> 0 \<and> \<bar>gasUsed p\<bar> \<le> 2 ^ 53"
    then have h1: "\<bar>?d\<bar> \<le> 2 ^ 53" and h2: "gasUsed p \<noteq> 0" and h3: "\<bar>gasUsed p\<bar> \<le> 2 ^ 53"
      by blast+
    show "\<exists>q. changePercentage ?cmp = Some (Num q) \<and>
         \<bar>q - 100 * of_int ?d / of_int (gasUsed p)\<bar> \<le>
         \<bar>100 * of_int ?d / of_int (gasUsed p)\<bar> / 2 ^ 51"
      unfolding sel(5) option.inject by (rule finite [OF h1 h2 h3])
  qed
  have c3: "\<bar>?d\<bar> \<le> 2 ^ 53 \<and> gasUsed p = 0 \<longrightarrow>
      changePercentage ?cmp =
        Some (if gasUsed c = 0 then NaN else if 0 < gasUsed c then PosInfinity else NegInfinity)"
  proof (rule impI)
    assume h: "\<bar>?d\<bar> \<le> 2 ^ 53 \<and> gasUsed p = 0"
    then have h1: "\<bar>?d\<bar> \<le> 2 ^ 53" and h2: "gasUsed p = 0" by blast+
    show "changePercentage ?cmp =
        Some (if gasUsed c = 0 then NaN else if 0 < gasUsed c then PosInfinity else NegInfinity)"
      unfolding sel(5) option.inject by (rule zero [OF h1 h2])
  qed
  show ?thesis
    by (intro exI [of _ ?t] exI [of _ ?cmp] conjI) (rule t sel c1 c2 c3)+
qed

theorem compareGasSnapshots_comparison_witness:
  "(\<exists>t cmp. get_prop (testResults (compareGasSnapshots snapshot_now snapshot_before)) (js ''a'') = Some t \<and>
      gasUsed t = 20000 \<and> comparison t = Some cmp \<and> previous cmp = Some 22000 \<and>
      change cmp = Some (Num (- 2000)) \<and>
      changePercentage cmp = Some (Num (- 5117726849284655 / 562949953421312)) \<and>
      (\<exists>q. changePercentage cmp = Some (Num q) \<and> \<bar>q - (- 100 / 11)\<bar> \<le> (100 / 11) / 2 ^ 51)) \<and>
   (\<exists>t cmp. get_prop (testResults (compareGasSnapshots snapshot_183 snapshot_160)) (js ''t()'') = Some t \<and>
      gasUsed t = 183 \<and> comparison t = Some cmp \<and> previous cmp = Some 160 \<and>
      change cmp = Some (Num 23) \<and>
      changePercentage cmp = Some (Num (8092405580431359 / 562949953421312)) \<and>
      (\<exists>q. changePercentage cmp = Some (Num q) \<and> \<bar>q - 115 / 8\<bar> \<le> (115 / 8) / 2 ^ 51)) \<and>
   (\<exists>t cmp. get_prop (testResults (compareGasSnapshots snapshot_now snapshot_zero)) (js ''a'') = Some t \<and>
      gasUsed t = 20000 \<and> comparison t = Some cmp \<and> previous cmp = Some 0 \<and>
      change cmp = Some (Num 20000) \<and> changePercentage cmp = Some PosInfinity)"
proof -
  from compareGasSnapshots_comparison
      [of snapshot_now "js ''a''" "plain 20000" snapshot_before "plain 22000"]
  have 1: "\<exists>t cmp. get_prop (testResults (compareGasSnapshots snapshot_now snapshot_before)) (js ''a'') = Some t \<and>
      gasUsed t = 20000 \<and> comparison t = Some cmp \<and> previous cmp = Some 22000 \<and>
      change cmp = Some (Num (- 2000)) \<and>
      changePercentage cmp = Some (Num (- 5117726849284655 / 562949953421312)) \<and>
      (\<exists>q. changePercentage cmp = Some (Num q) \<and> \<bar>q - (- 100 / 11)\<bar> \<le> (100 / 11) / 2 ^ 51)"
    by (simp add: gas_eval round64_eval) blast
  from compareGasSnapshots_comparison
      [of snapshot_183 "js ''t()''" "plain 183" snapshot_160 "plain 160"]
  have 2: "\<exists>t cmp. get_prop (testResults (compareGasSnapshots snapshot_183 snapshot_160)) (js ''t()'') = Some t \<and>
      gasUsed t = 183 \<and> comparison t = Some cmp \<and> previous cmp = Some 160 \<and>
      change cmp = Some (Num 23) \<and>
      changePercentage cmp = Some (Num (8092405580431359 / 562949953421312)) \<and>
      (\<exists>q. changePercentage cmp = Some (Num q) \<and> \<bar>q - 115 / 8\<bar> \<le> (115 / 8) / 2 ^ 51)"
    by (simp add: gas_eval round64_eval) blast
  from compareGasSnapshots_comparison
      [of snapshot_now "js ''a''" "plain 20000" snapshot_zero "plain 0"]
  have 3: "\<exists>t cmp. get_prop (testResults (compareGasSnapshots snapshot_now snapshot_zero)) (js ''a'') = Some t \<and>
      gasUsed t = 20000 \<and> comparison t = Some cmp \<and> previous cmp = Some 0 \<and>
      change cmp = Some (Num 20000) \<and> changePercentage cmp = Some PosInfinity"
    by (simp add: gas_eval round64_eval) blast
  from 1 2 3 show ?thesis by blast
qed

text \<open>
  Claim C5 says that an entry present only in the current snapshot is left without a
  comparison. The comparator reads \<^verbatim>\<open>previousSnapshot.testResults[testName]\<close> without
  asking whether the name is an own property, so for a test named \<^verbatim>\<open>constructor\<close> and a
  previous snapshot without tests it finds the member of \<^verbatim>\<open>Object.prototype\<close> and
  attaches a comparison made from it: \<^verbatim>\<open>previous\<close> undefined, \<^verbatim>\<open>change\<close> and
  \<^verbatim>\<open>changePercentage\<close> \<^verbatim>\<open>NaN\<close>.
\<close>

theorem compareGasSnapshots_inherited_name:
  "get_prop (testResults snapshot_empty) (js ''constructor'') = None \<and>
   get_prop (testResults snapshot_constructor) (js ''constructor'') =
     Some \<lparr>gasUsed = 5, comparison = None\<rparr> \<and>
   testResults (compareGasSnapshots snapshot_constructor snapshot_empty) =
     [(js ''constructor'',
       \<lparr>gasUsed = 5,
        comparison = Some \<lparr>previous = None, change = Some NaN, changePercentage = Some NaN\<rparr>\<rparr>)]"
  by (simp add: compareGasSnapshots_def gas_eval)

section \<open>The bounded history: theorems\<close>

lemma slice_last_suffix: "take (length xs - n) xs @ slice_last n xs = xs"
  by (simp add: slice_last_def)

lemma length_slice_last: "length (slice_last n xs) = min n (length xs)"
  by (simp add: slice_last_def)

text \<open>
  Claim C6: when the write succeeds, the file holds the old log with the record pushed
  at the end and the oldest entries dropped from the front until at most 100 are left:
  it is a suffix of the pushed log, of length min 100 (n + 1), it ends with the new
  record, and for a log of 100 entries it has 100 entries and starts with the second
  entry of the old log. When the write fails the call returns false.
\<close>

theorem addGasSnapshotToHistory_window:
  "(\<exists>dropped l.
      addGasSnapshotToHistory False snapshot stored = (True, Some l) \<and>
      history_of stored @ [snapshot] = dropped @ l \<and>
      length l = min 100 (length (history_of stored) + 1) \<and>
      length l \<le> 100 \<and>
      last l = snapshot \<and>
      (length (history_of stored) = 100 \<longrightarrow> length l = 100 \<and> hd l = history_of stored ! 1)) \<and>
   fst (addGasSnapshotToHistory True snapshot stored) = False"
proof -
  let ?h = "history_of stored @ [snapshot]"
  let ?l = "slice_last 100 ?h"
  have run: "addGasSnapshotToHistory False snapshot stored = (True, Some ?l)"
    by (simp add: addGasSnapshotToHistory_def history_of_def Let_def)
  have suffix: "?h = take (length ?h - 100) ?h @ ?l"
    by (simp only: slice_last_suffix)
  have len: "length ?l = min 100 (length (history_of stored) + 1)"
    by (simp add: length_slice_last)
  have "?l \<noteq> []"
    using len by (metis Suc_eq_plus1 length_0_conv min_Suc_Suc nat.distinct(1) numeral_eq_Suc pred_numeral_simps(3))
  then have lst: "last ?l = snapshot"
    by (simp add: slice_last_def)
  have full: "length ?l = 100 \<and> hd ?l = history_of stored ! 1" if "length (history_of stored) = 100"
  proof -
    from that have "?l = drop 1 (history_of stored) @ [snapshot]"
      by (simp add: slice_last_def)
    moreover from that have "drop 1 (history_of stored) \<noteq> []" by auto
    moreover from that have "hd (drop 1 (history_of stored)) = history_of stored ! 1"
      by (simp add: hd_drop_conv_nth)
    ultimately show ?thesis using that by simp
  qed
  have "fst (addGasSnapshotToHistory True snapshot stored) = False"
    by (simp add: addGasSnapshotToHistory_def Let_def)
  with run suffix len lst full show ?thesis
    by (metis min.cobounded1)
qed

theorem addGasSnapshotToHistory_window_witness:
  "\<exists>l. addGasSnapshotToHistory False (numbered 100) (Some (map numbered [0..<100])) = (True, Some l) \<and>
       length l = 100 \<and> hd l = numbered 1 \<and> last l = numbered 100"
  using addGasSnapshotToHistory_window [of "numbered 100" "Some (map numbered [0..<100])"]
  by (auto simp: history_of_def)

section \<open>The report: theorems\<close>

lemma js_positive_sub:
  "x \<noteq> NaN \<Longrightarrow> y \<noteq> NaN \<Longrightarrow> js_positive (js_sub y x) \<longleftrightarrow> \<not> js_ge x y"
  by (cases x; cases y) auto

lemma js_ge_trans: "js_ge x y \<Longrightarrow> js_ge y z \<Longrightarrow> js_ge x z"
  by (cases x; cases y; cases z) auto

lemma js_ge_total: "x \<noteq> NaN \<Longrightarrow> y \<noteq> NaN \<Longrightarrow> js_ge x y \<or> js_ge y x"
  by (cases x; cases y) auto

lemma or0_not_NaN: "or0 v \<noteq> NaN"
  by (cases v rule: or0.cases) auto

lemma percentage_or0_not_NaN: "percentage_or0 trs a \<noteq> NaN"
  by (simp add: percentage_or0_def or0_not_NaN)

lemma set_insort_cmp: "set (insort_cmp cmp x ys) = insert x (set ys)"
  by (induction ys) auto

lemma mset_insort_cmp: "mset (insort_cmp cmp x ys) = add_mset x (mset ys)"
  by (induction ys) auto

lemma mset_sort_cmp: "mset (sort_cmp cmp xs) = mset xs"
  by (induction xs) (auto simp: sort_cmp_def mset_insort_cmp)

lemma sorted_insort_cmp:
  assumes key: "\<And>a. k a \<noteq> NaN"
    and "sorted_wrt (\<lambda>a b. js_ge (k a) (k b)) ys"
  shows "sorted_wrt (\<lambda>a b. js_ge (k a) (k b)) (insort_cmp (\<lambda>a b. js_sub (k b) (k a)) x ys)"
  using assms(2)
proof (induction ys)
  case Nil
  then show ?case by simp
next
  case (Cons y ys)
  show ?case
  proof (cases "js_ge (k x) (k y)")
    case True
    then have "\<forall>z \<in> set ys. js_ge (k x) (k z)"
      using Cons.prems by (auto intro: js_ge_trans)
    with True Cons.prems show ?thesis
      by (simp add: js_positive_sub key)
  next
    case False
    then have "js_ge (k y) (k x)"
      using js_ge_total [of "k x" "k y"] key by blast
    with False Cons show ?thesis
      by (auto simp: js_positive_sub key set_insort_cmp)
  qed
qed

lemma sorted_sort_cmp:
  assumes "\<And>a. k a \<noteq> NaN"
  shows "sorted_wrt (\<lambda>a b. js_ge (k a) (k b)) (sort_cmp (\<lambda>a b. js_sub (k b) (k a)) xs)"
proof (induction xs)
  case Nil
  then show ?case by (simp add: sort_cmp_def)
next
  case (Cons x xs)
  have "sort_cmp (\<lambda>a b. js_sub (k b) (k a)) (x # xs) =
        insort_cmp (\<lambda>a b. js_sub (k b) (k a)) x (sort_cmp (\<lambda>a b. js_sub (k b) (k a)) xs)"
    by (simp add: sort_cmp_def)
  with sorted_insort_cmp [where k = k, OF assms Cons.IH] show ?case
    by simp
qed

text \<open>Equal keys keep the order they had: the sort is stable.\<close>

lemma filter_insort_cmp:
  assumes key: "\<And>a. k a \<noteq> NaN"
    and "sorted_wrt (\<lambda>a b. js_ge (k a) (k b)) ys"
  shows "filter (\<lambda>a. k a = v) (insort_cmp (\<lambda>a b. js_sub (k b) (k a)) x ys) =
         filter (\<lambda>a. k a = v) (x # ys)"
  using assms(2)
proof (induction ys)
  case Nil
  then show ?case by simp
next
  case (Cons y ys)
  show ?case
  proof (cases "js_ge (k x) (k y)")
    case True
    then show ?thesis by (simp add: js_positive_sub key)
  next
    case False
    then have ne: "k x \<noteq> k y"
      using js_ge_total [of "k x" "k x"] key by auto
    from False Cons have "filter (\<lambda>a. k a = v) (insort_cmp (\<lambda>a b. js_sub (k b) (k a)) x (y # ys)) =
        filter (\<lambda>a. k a = v) (y # x # ys)"
      by (simp add: js_positive_sub key)
    with ne show ?thesis by auto
  qed
qed

lemma sort_cmp_stable:
  assumes "\<And>a. k a \<noteq> NaN"
  shows "filter (\<lambda>a. k a = v) (sort_cmp (\<lambda>a b. js_sub (k b) (k a)) xs) = filter (\<lambda>a. k a = v) xs"
proof (induction xs)
  case Nil
  then show ?case by (simp add: sort_cmp_def)
next
  case (Cons x xs)
  have "sort_cmp (\<lambda>a b. js_sub (k b) (k a)) (x # xs) =
        insort_cmp (\<lambda>a b. js_sub (k b) (k a)) x (sort_cmp (\<lambda>a b. js_sub (k b) (k a)) xs)"
    by (simp add: sort_cmp_def)
  with Cons show ?case
    by (simp add: filter_insort_cmp [OF assms sorted_sort_cmp [OF assms]])
qed

lemma indicator_nonempty: "indicator c \<noteq> [] \<longleftrightarrow> isSignificant c"
  by (simp add: indicator_def RED_def GREEN_def)

lemma report_row_shape:
  assumes "get_prop trs n = Some t" and "comparison t = Some c"
  shows "\<exists>body. report_row f trs n = body @ js ''%'' @ indicator c @ js '' |'' @ [10]"
proof -
  let ?body = "js ''| '' @ n @ js '' | '' @ num f (Num (of_int (gasUsed t))) @ js '' | '' @
     (case previous c of None \<Rightarrow> js ''undefined'' | Some p \<Rightarrow> num f (Num (of_int p))) @
     js '' | '' @
     (if js_positive (row_change c) then js ''+'' @ num f (row_change c)
      else num f (row_change c)) @
     js '' | '' @ toFixed2 f (row_percentage c)"
  from assms have "report_row f trs n = ?body @ js ''%'' @ indicator c @ js '' |'' @ [10]"
    by (simp add: report_row_def Let_def)
  then show ?thesis by blast
qed

text \<open>
  Claim C7. For a snapshot without entries the report is the fixed text
  \<^verbatim>\<open>No gas snapshot data available.\<close>; when there are entries and none has a comparison
  it is \<^verbatim>\<open>No comparison data available for gas snapshot.\<close>. Otherwise it is the header,
  one row for each name of \<open>sortedTests\<close>, and the summary, where \<open>sortedTests\<close> holds
  exactly the names whose entry has a comparison, each as often as among the keys, in
  descending order of the percentage (an undefined percentage and \<^verbatim>\<open>NaN\<close> counting as 0),
  and the row of an entry ends with the percent sign, the marker and the closing bar,
  the marker being present if and only if the absolute percentage is at least 5.
\<close>

theorem generateGasReport_cases:
  "(testResults s = [] \<longrightarrow> generateGasReport f s = js ''No gas snapshot data available.'') \<and>
   (testResults s \<noteq> [] \<and>
      (\<forall>n \<in> set (keys (testResults s)). comparison_of (testResults s) n = None) \<longrightarrow>
      generateGasReport f s = js ''No comparison data available for gas snapshot.'') \<and>
   (testResults s \<noteq> [] \<and>
      (\<exists>n \<in> set (keys (testResults s)). comparison_of (testResults s) n \<noteq> None) \<longrightarrow>
      generateGasReport f s =
        REPORT_HEADER @
        concat (map (report_row f (testResults s)) (sortedTests (testResults s))) @
        report_summary f (testResults s) (sortedTests (testResults s)) \<and>
      mset (sortedTests (testResults s)) =
        mset (filter (\<lambda>n. comparison_of (testResults s) n \<noteq> None) (keys (testResults s))) \<and>
      sorted_wrt (\<lambda>a b. js_ge (percentage_or0 (testResults s) a) (percentage_or0 (testResults s) b))
        (sortedTests (testResults s)) \<and>
      (\<forall>n \<in> set (sortedTests (testResults s)).
         \<exists>t c body.
           get_prop (testResults s) n = Some t \<and> comparison t = Some c \<and>
           report_row f (testResults s) n = body @ js ''%'' @ indicator c @ js '' |'' @ [10] \<and>
           (indicator c \<noteq> [] \<longleftrightarrow> js_ge (js_abs (row_percentage c)) (Num 5))))"
proof (intro conjI impI)
  assume "testResults s = []"
  then show "generateGasReport f s = js ''No gas snapshot data available.''"
    by (simp add: generateGasReport_def keys_def NO_DATA_def)
next
  assume a: "testResults s \<noteq> [] \<and>
      (\<forall>n \<in> set (keys (testResults s)). comparison_of (testResults s) n = None)"
  then have "testsWithComparison (testResults s) = []"
    by (simp add: testsWithComparison_def filter_empty_conv)
  with a show "generateGasReport f s = js ''No comparison data available for gas snapshot.''"
    by (simp add: generateGasReport_def keys_def NO_COMPARISON_DATA_def)
next
  assume a: "testResults s \<noteq> [] \<and>
      (\<exists>n \<in> set (keys (testResults s)). comparison_of (testResults s) n \<noteq> None)"
  then have "testsWithComparison (testResults s) \<noteq> []"
    by (simp add: testsWithComparison_def filter_empty_conv)
  with a show "generateGasReport f s =
        REPORT_HEADER @
        concat (map (report_row f (testResults s)) (sortedTests (testResults s))) @
        report_summary f (testResults s) (sortedTests (testResults s))"
    by (simp add: generateGasReport_def keys_def Let_def)
  show m: "mset (sortedTests (testResults s)) =
        mset (filter (\<lambda>n. comparison_of (testResults s) n \<noteq> None) (keys (testResults s)))"
    by (simp add: sortedTests_def mset_sort_cmp testsWithComparison_def)
  show "sorted_wrt (\<lambda>a b. js_ge (percentage_or0 (testResults s) a) (percentage_or0 (testResults s) b))
        (sortedTests (testResults s))"
    unfolding sortedTests_def
    by (rule sorted_sort_cmp [where k = "percentage_or0 (testResults s)"])
       (rule percentage_or0_not_NaN)
  show "\<forall>n \<in> set (sortedTests (testResults s)).
         \<exists>t c body.
           get_prop (testResults s) n = Some t \<and> comparison t = Some c \<and>
           report_row f (testResults s) n = body @ js ''%'' @ indicator c @ js '' |'' @ [10] \<and>
           (indicator c \<noteq> [] \<longleftrightarrow> js_ge (js_abs (row_percentage c)) (Num 5))"
  proof
    fix n
    assume "n \<in> set (sortedTests (testResults s))"
    then have "n \<in># mset (sortedTests (testResults s))" by simp
    with m have "comparison_of (testResults s) n \<noteq> None" by simp
    then obtain t c where t: "get_prop (testResults s) n = Some t" and c: "comparison t = Some c"
      by (auto simp: comparison_of_def split: option.splits)
    from report_row_shape [OF t c, of f] obtain body where
      "report_row f (testResults s) n = body @ js ''%'' @ indicator c @ js '' |'' @ [10]"
      by blast
    moreover have "indicator c \<noteq> [] \<longleftrightarrow> js_ge (js_abs (row_percentage c)) (Num 5)"
      by (simp add: indicator_nonempty isSignificant_def GAS_SNAPSHOT_COMPARISON_THRESHOLD_def)
    ultimately show "\<exists>t c body.
           get_prop (testResults s) n = Some t \<and> comparison t = Some c \<and>
           report_row f (testResults s) n = body @ js ''%'' @ indicator c @ js '' |'' @ [10] \<and>
           (indicator c \<noteq> [] \<longleftrightarrow> js_ge (js_abs (row_percentage c)) (Num 5))"
      using t c by blast
  qed
qed

theorem generateGasReport_cases_witness:
  "generateGasReport decimal_formatting (numbered 0) = js ''No gas snapshot data available.'' \<and>
   generateGasReport decimal_formatting snapshot_now =
     js ''No comparison data available for gas snapshot.'' \<and>
   sortedTests (testResults snapshot_reported) = [js ''up'', js ''same'', js ''down''] \<and>
   generateGasReport decimal_formatting snapshot_reported =
     REPORT_HEADER @
     js ''| up | 25000 | 20000 | +5000 | 25.00%'' @ RED @ js '' |'' @ [10] @
     js ''| same | 30000 | 30000 | 0 | 0.00% |'' @ [10] @
     js ''| down | 18000 | 22000 | -4000 | -18.18%'' @ GREEN @ js '' |'' @ [10] @
     [10] @ js ''### Summary'' @ [10, 10] @
     js ''-'' @ RED @ js '' Gas increases: 1'' @ [10] @
     js ''-'' @ GREEN @ js '' Gas decreases: 1'' @ [10] @
     js ''- '' @ WHITE @ js '' Unchanged: 1'' @ [10] @
     js ''- Total tests compared: 3'' @ [10]"
proof -
  have srt: "sortedTests (testResults snapshot_reported) = [js ''up'', js ''same'', js ''down'']"
    by (simp add: sortedTests_def sort_cmp_def testsWithComparison_def comparison_of_def
        percentage_or0_def snapshot_reported_def compared_result_def plain_def keys_def
        get_prop_def js_def)
  have rows: "concat (map (report_row decimal_formatting (testResults snapshot_reported))
        [js ''up'', js ''same'', js ''down'']) =
     js ''| up | 25000 | 20000 | +5000 | 25.00%'' @ RED @ js '' |'' @ [10] @
     js ''| same | 30000 | 30000 | 0 | 0.00% |'' @ [10] @
     js ''| down | 18000 | 22000 | -4000 | -18.18%'' @ GREEN @ js '' |'' @ [10]"
    by (simp add: report_row_def indicator_def isSignificant_def row_percentage_def row_change_def
        GAS_SNAPSHOT_COMPARISON_THRESHOLD_def snapshot_reported_def compared_result_def plain_def
        decimal_formatting_def decimal_def fixed2_def decimal_nat.simps floor_rat_numeral Let_def
        get_prop_def js_def)
  have summary: "report_summary decimal_formatting (testResults snapshot_reported)
        [js ''up'', js ''same'', js ''down''] =
     [10] @ js ''### Summary'' @ [10, 10] @
     js ''-'' @ RED @ js '' Gas increases: 1'' @ [10] @
     js ''-'' @ GREEN @ js '' Gas decreases: 1'' @ [10] @
     js ''- '' @ WHITE @ js '' Unchanged: 1'' @ [10] @
     js ''- Total tests compared: 3'' @ [10]"
    by (simp add: report_summary_def change_or0_def comparison_of_def snapshot_reported_def
        compared_result_def plain_def decimal_formatting_def decimal_def decimal_nat.simps
        Let_def get_prop_def js_def)
  have e: "testResults (numbered 0) = []"
    by (simp add: numbered_def)
  have n: "testResults snapshot_now \<noteq> [] \<and>
      (\<forall>n \<in> set (keys (testResults snapshot_now)). comparison_of (testResults snapshot_now) n = None)"
    by (simp add: snapshot_now_def plain_def keys_def comparison_of_def get_prop_def js_def)
  have r: "testResults snapshot_reported \<noteq> [] \<and>
      (\<exists>n \<in> set (keys (testResults snapshot_reported)).
         comparison_of (testResults snapshot_reported) n \<noteq> None)"
    by (simp add: snapshot_reported_def compared_result_def keys_def comparison_of_def get_prop_def js_def)
  from generateGasReport_cases [of "numbered 0" decimal_formatting] e
  have 1: "generateGasReport decimal_formatting (numbered 0) = js ''No gas snapshot data available.''"
    by blast
  from generateGasReport_cases [of snapshot_now decimal_formatting] n
  have 2: "generateGasReport decimal_formatting snapshot_now =
      js ''No comparison data available for gas snapshot.''"
    by blast
  from generateGasReport_cases [of snapshot_reported decimal_formatting] r
  have "generateGasReport decimal_formatting snapshot_reported =
        REPORT_HEADER @
        concat (map (report_row decimal_formatting (testResults snapshot_reported))
          (sortedTests (testResults snapshot_reported))) @
        report_summary decimal_formatting (testResults snapshot_reported)
          (sortedTests (testResults snapshot_reported))"
    by blast
  then have 3: "generateGasReport decimal_formatting snapshot_reported =
     REPORT_HEADER @
     js ''| up | 25000 | 20000 | +5000 | 25.00%'' @ RED @ js '' |'' @ [10] @
     js ''| same | 30000 | 30000 | 0 | 0.00% |'' @ [10] @
     js ''| down | 18000 | 22000 | -4000 | -18.18%'' @ GREEN @ js '' |'' @ [10] @
     [10] @ js ''### Summary'' @ [10, 10] @
     js ''-'' @ RED @ js '' Gas increases: 1'' @ [10] @
     js ''-'' @ GREEN @ js '' Gas decreases: 1'' @ [10] @
     js ''- '' @ WHITE @ js '' Unchanged: 1'' @ [10] @
     js ''- Total tests compared: 3'' @ [10]"
    by (simp only: srt rows summary append_assoc)
  from 1 2 srt 3 show ?thesis by blast
qed

section \<open>The parser: theorems\<close>

lemma gas_literal: "js ''(gas:'' = [40, 103, 97, 115, 58]"
  by (simp add: js_def)

lemma not_ws_paren: "\<not> is_ws 40"
  by (simp add: is_ws_def)

lemma digit_not_ws: "is_digit c \<Longrightarrow> \<not> is_ws c"
  by (auto simp: is_digit_def is_ws_def)

lemma not_digit_paren: "\<not> is_digit 41"
  by (simp add: is_digit_def)

text \<open>
  The matcher of the tail accepts exactly the strings that start with white space,
  \<^verbatim>\<open>(gas:\<close>, white space, digits and \<^verbatim>\<open>)\<close>, and returns the digits.
\<close>

lemma match_gas_sound:
  assumes "match_gas s = Some ds"
  shows "\<exists>ws1 ws2 rest.
           s = ws1 @ js ''(gas:'' @ ws2 @ ds @ [41] @ rest \<and>
           ws1 \<noteq> [] \<and> list_all is_ws ws1 \<and> ws2 \<noteq> [] \<and> list_all is_ws ws2 \<and>
           ds \<noteq> [] \<and> list_all is_digit ds"
proof -
  let ?ws1 = "takeWhile is_ws s"
  let ?r1 = "dropWhile is_ws s"
  let ?r2 = "drop 5 ?r1"
  let ?ws2 = "takeWhile is_ws ?r2"
  let ?r3 = "dropWhile is_ws ?r2"
  let ?r4 = "dropWhile is_digit ?r3"
  from assms have ws1: "?ws1 \<noteq> []" and lit: "take 5 ?r1 = js ''(gas:''" and ws2: "?ws2 \<noteq> []"
    and ds: "ds = takeWhile is_digit ?r3" and dne: "ds \<noteq> []"
    and r4: "\<exists>rest. ?r4 = 41 # rest"
    by (auto simp: match_gas_def Let_def split: if_splits list.splits)
  from r4 obtain rest where rest: "?r4 = 41 # rest" by blast
  have "s = ?ws1 @ ?r1" by simp
  also have "?r1 = take 5 ?r1 @ ?r2" by simp
  also have "?r2 = ?ws2 @ ?r3" by simp
  also have "?r3 = ds @ ?r4" by (simp add: ds)
  finally have "s = ?ws1 @ js ''(gas:'' @ ?ws2 @ ds @ [41] @ rest"
    using lit rest by simp
  moreover have "list_all is_ws ?ws1" "list_all is_ws ?ws2" "list_all is_digit ds"
    by (auto simp: list_all_iff ds dest: set_takeWhileD)
  ultimately show ?thesis using ws1 ws2 dne by blast
qed

lemma match_gas_complete:
  assumes "ws1 \<noteq> []" "list_all is_ws ws1" "ws2 \<noteq> []" "list_all is_ws ws2"
    "ds \<noteq> []" "list_all is_digit ds"
  shows "match_gas (ws1 @ js ''(gas:'' @ ws2 @ ds @ [41] @ rest) = Some ds"
proof -
  let ?s = "ws1 @ js ''(gas:'' @ ws2 @ ds @ [41] @ rest"
  obtain d ds' where d: "ds = d # ds'" using assms(5) by (cases ds) auto
  with assms(6) have nd: "\<not> is_ws d" by (simp add: digit_not_ws)
  have t1: "takeWhile is_ws ?s = ws1"
    using assms(2) by (simp add: takeWhile_append2 list_all_iff gas_literal not_ws_paren)
  have d1: "dropWhile is_ws ?s = js ''(gas:'' @ ws2 @ ds @ [41] @ rest"
    using assms(2) by (simp add: dropWhile_append2 list_all_iff gas_literal not_ws_paren)
  have t2: "takeWhile is_ws (ws2 @ ds @ [41] @ rest) = ws2"
    using assms(4) nd by (simp add: takeWhile_append2 list_all_iff d)
  have d2: "dropWhile is_ws (ws2 @ ds @ [41] @ rest) = ds @ [41] @ rest"
    using assms(4) nd by (simp add: dropWhile_append2 list_all_iff d)
  have t3: "takeWhile is_digit (ds @ [41] @ rest) = ds"
    using assms(6) by (simp add: takeWhile_append2 list_all_iff not_digit_paren)
  have d3: "dropWhile is_digit (ds @ [41] @ rest) = 41 # rest"
    using assms(6) by (simp add: dropWhile_append2 list_all_iff not_digit_paren)
  have five: "take 5 (js ''(gas:'' @ ws2 @ ds @ [41] @ rest) = js ''(gas:''"
    "drop 5 (js ''(gas:'' @ ws2 @ ds @ [41] @ rest) = ws2 @ ds @ [41] @ rest"
    by (simp_all add: gas_literal)
  show ?thesis
    unfolding match_gas_def Let_def t1 d1 five t2 d2 t3 d3
    using assms(1,3,5) by simp
qed

text \<open>
  The matcher of a line returns the shortest prefix without a line terminator after
  which the tail matches.
\<close>

lemma match_line_sound:
  "match_line l = Some (name, ds) \<Longrightarrow>
     \<exists>tail. l = name @ tail \<and> match_gas tail = Some ds \<and>
       (\<forall>c \<in> set name. \<not> is_line_terminator c) \<and>
       (\<forall>i < length name. match_gas (drop i l) = None)"
proof (induction l arbitrary: name)
  case Nil
  then show ?case by simp
next
  case (Cons c cs)
  show ?case
  proof (cases "match_gas (c # cs)")
    case (Some d)
    with Cons.prems show ?thesis by auto
  next
    case None
    with Cons.prems obtain name' where lt: "\<not> is_line_terminator c"
      and rec: "match_line cs = Some (name', ds)" and name: "name = c # name'"
      by (auto split: if_splits option.splits)
    from Cons.IH [OF rec] obtain tail where tail: "cs = name' @ tail" "match_gas tail = Some ds"
      "\<forall>c \<in> set name'. \<not> is_line_terminator c" "\<forall>i < length name'. match_gas (drop i cs) = None"
      by blast
    have "\<forall>i < length name. match_gas (drop i (c # cs)) = None"
    proof (intro allI impI)
      fix i assume "i < length name"
      then show "match_gas (drop i (c # cs)) = None"
        using None tail(4) name by (cases i) auto
    qed
    with tail lt name show ?thesis by auto
  qed
qed

lemma match_line_complete:
  "match_gas tail = Some ds \<Longrightarrow> \<forall>c \<in> set name. \<not> is_line_terminator c \<Longrightarrow>
     match_line (name @ tail) \<noteq> None"
proof (induction name)
  case Nil
  then show ?case by (cases tail) (auto simp: match_gas_def)
next
  case (Cons c name)
  then show ?case by (auto split: option.splits)
qed

lemma match_gas_Nil: "match_gas [] = None"
  by (simp add: match_gas_def)

lemma match_line_exact:
  "match_gas tail = Some ds \<Longrightarrow> list_all (\<lambda>c. \<not> is_line_terminator c) name \<Longrightarrow>
   \<forall>i < length name. match_gas (drop i (name @ tail)) = None \<Longrightarrow>
   match_line (name @ tail) = Some (name, ds)"
proof (induction name)
  case Nil
  then show ?case by (cases tail) (auto simp: match_gas_Nil)
next
  case (Cons c name)
  from Cons.prems(3) have first: "match_gas (c # name @ tail) = None"
    by (auto dest: spec [of _ 0])
  have "\<forall>i < length name. match_gas (drop i (name @ tail)) = None"
  proof (intro allI impI)
    fix i assume "i < length name"
    with Cons.prems(3) show "match_gas (drop i (name @ tail)) = None"
      by (auto dest: spec [of _ "Suc i"])
  qed
  with Cons.IH Cons.prems(1,2) have "match_line (name @ tail) = Some (name, ds)"
    by simp
  with first Cons.prems(2) show ?case by simp
qed

text \<open>The two matchers as the pattern describes them.\<close>

lemma match_gas_iff:
  "match_gas t = Some ds \<longleftrightarrow>
     (\<exists>ws1 ws2 rest.
        t = ws1 @ js ''(gas:'' @ ws2 @ ds @ js '')'' @ rest \<and>
        ws1 \<noteq> [] \<and> list_all is_ws ws1 \<and> ws2 \<noteq> [] \<and> list_all is_ws ws2 \<and>
        ds \<noteq> [] \<and> list_all is_digit ds)"
proof
  assume "match_gas t = Some ds"
  from match_gas_sound [OF this] show "\<exists>ws1 ws2 rest.
        t = ws1 @ js ''(gas:'' @ ws2 @ ds @ js '')'' @ rest \<and>
        ws1 \<noteq> [] \<and> list_all is_ws ws1 \<and> ws2 \<noteq> [] \<and> list_all is_ws ws2 \<and>
        ds \<noteq> [] \<and> list_all is_digit ds"
    by (simp add: js_def)
next
  assume "\<exists>ws1 ws2 rest.
        t = ws1 @ js ''(gas:'' @ ws2 @ ds @ js '')'' @ rest \<and>
        ws1 \<noteq> [] \<and> list_all is_ws ws1 \<and> ws2 \<noteq> [] \<and> list_all is_ws ws2 \<and>
        ds \<noteq> [] \<and> list_all is_digit ds"
  then obtain ws1 ws2 rest where t: "t = ws1 @ js ''(gas:'' @ ws2 @ ds @ [41] @ rest"
    and c: "ws1 \<noteq> []" "list_all is_ws ws1" "ws2 \<noteq> []" "list_all is_ws ws2"
      "ds \<noteq> []" "list_all is_digit ds"
    by (auto simp: js_def)
  from match_gas_complete [OF c] t show "match_gas t = Some ds" by simp
qed

lemma match_line_iff:
  "match_line l = Some (name, ds) \<longleftrightarrow>
     (\<exists>tail. l = name @ tail \<and> match_gas tail = Some ds \<and>
        list_all (\<lambda>c. \<not> is_line_terminator c) name \<and>
        (\<forall>i < length name. match_gas (drop i l) = None))"
proof
  assume "match_line l = Some (name, ds)"
  from match_line_sound [OF this] show "\<exists>tail. l = name @ tail \<and> match_gas tail = Some ds \<and>
        list_all (\<lambda>c. \<not> is_line_terminator c) name \<and>
        (\<forall>i < length name. match_gas (drop i l) = None)"
    by (simp add: list_all_iff)
next
  assume "\<exists>tail. l = name @ tail \<and> match_gas tail = Some ds \<and>
        list_all (\<lambda>c. \<not> is_line_terminator c) name \<and>
        (\<forall>i < length name. match_gas (drop i l) = None)"
  then obtain tail where "l = name @ tail" "match_gas tail = Some ds"
    "list_all (\<lambda>c. \<not> is_line_terminator c) name"
    "\<forall>i < length name. match_gas (drop i (name @ tail)) = None"
    by auto
  then show "match_line l = Some (name, ds)"
    by (simp only: match_line_exact)
qed

lemma line_entry_iff:
  "line_entry l = Some (k, v) \<longleftrightarrow>
     (\<exists>name ds. match_line l = Some (name, ds) \<and> k = trim name \<and> v = parseInt ds)"
  by (auto simp: line_entry_def split: option.splits)

text \<open>
  The loop over the lines: a later line overrides an earlier one with the same name,
  and a line with the name \<^verbatim>\<open>__proto__\<close> leaves the table as it is.
\<close>

lemma parse_fold:
  "fold (\<lambda>line result.
           case match_line line of
             None \<Rightarrow> result
           | Some (testName, gas) \<Rightarrow> assign (trim testName) (parseInt gas) result)
     ls acc =
   acc ++ map_of (rev (filter (\<lambda>(k, v). k \<noteq> js ''__proto__'') (List.map_filter line_entry ls)))"
proof (induction ls arbitrary: acc)
  case Nil
  then show ?case by (simp add: List.map_filter_simps)
next
  case (Cons l ls)
  let ?F = "\<lambda>line result.
           case match_line line of
             None \<Rightarrow> result
           | Some (testName, gas) \<Rightarrow> assign (trim testName) (parseInt gas) result"
  let ?R = "filter (\<lambda>(k, v). k \<noteq> js ''__proto__'') (List.map_filter line_entry ls)"
  show ?case
  proof (cases "match_line l")
    case None
    then show ?thesis
      using Cons.IH [of acc] by (simp add: List.map_filter_simps line_entry_def)
  next
    case (Some m)
    obtain n ds where m: "m = (n, ds)" by (cases m)
    show ?thesis
    proof (cases "trim n = js ''__proto__''")
      case True
      with Some m show ?thesis
        using Cons.IH [of acc] by (simp add: List.map_filter_simps line_entry_def assign_def)
    next
      case False
      have entries: "filter (\<lambda>(k, v). k \<noteq> js ''__proto__'') (List.map_filter line_entry (l # ls)) =
          (trim n, parseInt ds) # ?R"
        using Some m False by (simp add: List.map_filter_simps line_entry_def)
      have "fold ?F (l # ls) acc = fold ?F ls (acc(trim n \<mapsto> parseInt ds))"
        using Some m False by (simp add: assign_def)
      also have "\<dots> = acc(trim n \<mapsto> parseInt ds) ++ map_of (rev ?R)"
        by (rule Cons.IH)
      also have "\<dots> = acc ++ map_of (rev ((trim n, parseInt ds) # ?R))"
        by (simp add: map_of_append)
      finally show ?thesis
        by (simp only: entries)
    qed
  qed
qed

lemma digits_value_nonneg: "list_all is_digit ds \<Longrightarrow> 0 \<le> digits_value ds"
proof -
  have "list_all is_digit ds \<Longrightarrow> 0 \<le> acc \<Longrightarrow>
      0 \<le> foldl (\<lambda>acc d. acc * 10 + (int d - 48)) acc ds" for acc
    by (induction ds arbitrary: acc) (auto simp: is_digit_def)
  then show "list_all is_digit ds \<Longrightarrow> 0 \<le> digits_value ds"
    by (simp add: digits_value_def)
qed

lemmas parse_eval = js_def trim_def is_ws_def is_digit_def is_line_terminator_def
  match_gas_def parseInt_def digits_value_def assign_def

text \<open>
  Claim C8. The parser is a total function: splitting, matching, trimming, reading a
  string of digits and assigning a property cannot fail, so the handler of the source
  is never entered and every input has a result. The empty input gives the empty
  mapping, and the input of the three lines \<^verbatim>\<open>test_a() (gas: 100)\<close>, \<^verbatim>\<open>noise\<close> and
  \<^verbatim>\<open>test_b() (gas: 200)\<close> gives the mapping of \<^verbatim>\<open>test_a()\<close> to 100 and \<^verbatim>\<open>test_b()\<close> to 200
  and of nothing else. In general the result maps a name to the number of the last
  line, among the lines between line feeds, that contributes this name: a line is
  matched on its own and a line that does not match contributes nothing, as does a
  line whose name is \<^verbatim>\<open>__proto__\<close>, since \<^verbatim>\<open>result['__proto__'] = n\<close> creates no property.
  A line contributes the name \<open>k\<close> and the number \<open>v\<close> exactly when it starts with a
  run \<open>name\<close> of code units other than line terminators, \<open>k\<close> being \<open>name\<close> trimmed, after
  which come white space, \<^verbatim>\<open>(gas:\<close>, white space, a run \<open>ds\<close> of decimal digits that is
  not followed by a further digit, and \<^verbatim>\<open>)\<close>, where no shorter start of the line is
  followed in this way, \<open>v\<close> being the double nearest to the integer \<open>ds\<close> denotes,
  which is that integer when it is at most \<open>2 ^ 53\<close>.
\<close>

theorem parseGasSnapshot_lines:
  "parseGasSnapshot [] = Map.empty \<and>
   parseGasSnapshot (js ''test_a() (gas: 100)'' @ [10] @ js ''noise'' @ [10] @ js ''test_b() (gas: 200)'') =
     [js ''test_a()'' \<mapsto> Num 100, js ''test_b()'' \<mapsto> Num 200] \<and>
   parseGasSnapshot s =
     map_of (rev (filter (\<lambda>(k, v). k \<noteq> js ''__proto__'')
                    (List.map_filter line_entry (split_on (\<lambda>c. c = 10) s)))) \<and>
   (line_entry l = Some (k, v) \<longleftrightarrow>
      (\<exists>name tail ds.
         l = name @ tail \<and> list_all (\<lambda>c. \<not> is_line_terminator c) name \<and>
         match_gas tail = Some ds \<and> (\<forall>i < length name. match_gas (drop i l) = None) \<and>
         k = trim name \<and> v = parseInt ds)) \<and>
   (match_gas t = Some ds \<longleftrightarrow>
      (\<exists>ws1 ws2 rest.
         t = ws1 @ js ''(gas:'' @ ws2 @ ds @ js '')'' @ rest \<and>
         ws1 \<noteq> [] \<and> list_all is_ws ws1 \<and> ws2 \<noteq> [] \<and> list_all is_ws ws2 \<and>
         ds \<noteq> [] \<and> list_all is_digit ds)) \<and>
   (list_all is_digit ds \<and> digits_value ds \<le> 2 ^ 53 \<longrightarrow>
      parseInt ds = Num (of_int (digits_value ds)))"
proof (intro conjI)
  have fold_eq: "parseGasSnapshot x =
     map_of (rev (filter (\<lambda>(k, v). k \<noteq> js ''__proto__'')
                    (List.map_filter line_entry (split_on (\<lambda>c. c = 10) x))))" for x
    unfolding parseGasSnapshot_def Let_def parse_fold by simp
  show "parseGasSnapshot [] = Map.empty"
    by (simp add: fold_eq List.map_filter_simps line_entry_def)
  show "parseGasSnapshot (js ''test_a() (gas: 100)'' @ [10] @ js ''noise'' @ [10] @ js ''test_b() (gas: 200)'') =
     [js ''test_a()'' \<mapsto> Num 100, js ''test_b()'' \<mapsto> Num 200]"
    by (simp add: fold_eq List.map_filter_simps line_entry_def parse_eval round64_eval)
  show "parseGasSnapshot s =
     map_of (rev (filter (\<lambda>(k, v). k \<noteq> js ''__proto__'')
                    (List.map_filter line_entry (split_on (\<lambda>c. c = 10) s))))"
    by (rule fold_eq)
  show "line_entry l = Some (k, v) \<longleftrightarrow>
      (\<exists>name tail ds.
         l = name @ tail \<and> list_all (\<lambda>c. \<not> is_line_terminator c) name \<and>
         match_gas tail = Some ds \<and> (\<forall>i < length name. match_gas (drop i l) = None) \<and>
         k = trim name \<and> v = parseInt ds)"
    unfolding line_entry_iff match_line_iff by blast
  show "match_gas t = Some ds \<longleftrightarrow>
      (\<exists>ws1 ws2 rest.
         t = ws1 @ js ''(gas:'' @ ws2 @ ds @ js '')'' @ rest \<and>
         ws1 \<noteq> [] \<and> list_all is_ws ws1 \<and> ws2 \<noteq> [] \<and> list_all is_ws ws2 \<and>
         ds \<noteq> [] \<and> list_all is_digit ds)"
    by (rule match_gas_iff)
  show "list_all is_digit ds \<and> digits_value ds \<le> 2 ^ 53 \<longrightarrow>
      parseInt ds = Num (of_int (digits_value ds))"
    using digits_value_nonneg [of ds] by (auto simp: parseInt_def intro: round64_int)
qed

theorem parseGasSnapshot_lines_witness:
  "parseGasSnapshot
     (js ''t() (gas: 1)'' @ [10] @ js ''__proto__ (gas: 5)'' @ [10] @ js ''banner'' @ [10] @
      js ''t() (gas: 9007199254740993)'') =
     [js ''t()'' \<mapsto> Num 9007199254740992] \<and>
   (\<exists>name tail ds.
      js ''a  (gas: 7) (gas: 8)'' = name @ tail \<and>
      list_all (\<lambda>c. \<not> is_line_terminator c) name \<and>
      match_gas tail = Some ds \<and>
      (\<forall>i < length name. match_gas (drop i (js ''a  (gas: 7) (gas: 8)'')) = None) \<and>
      js ''a'' = trim name \<and> Num 7 = parseInt ds) \<and>
   (\<exists>ws1 ws2 rest.
      js '' (gas: 7)x'' = ws1 @ js ''(gas:'' @ ws2 @ js ''7'' @ js '')'' @ rest \<and>
      ws1 \<noteq> [] \<and> list_all is_ws ws1 \<and> ws2 \<noteq> [] \<and> list_all is_ws ws2 \<and>
      js ''7'' \<noteq> [] \<and> list_all is_digit (js ''7'')) \<and>
   parseInt (js ''20000'') = Num 20000"
  using parseGasSnapshot_lines
    [of "js ''t() (gas: 1)'' @ [10] @ js ''__proto__ (gas: 5)'' @ [10] @ js ''banner'' @ [10] @
         js ''t() (gas: 9007199254740993)''"
        "js ''a  (gas: 7) (gas: 8)''" "js ''a''" "Num 7" "js '' (gas: 7)x''" "js ''7''"]
    parseGasSnapshot_lines [of "[]" "[]" "[]" "Num 0" "[]" "js ''20000''"]
  by (simp add: List.map_filter_simps line_entry_def parse_eval round64_eval)

section \<open>The comparator on the heap: theorems\<close>

lemma cell_append: "a < length h \<Longrightarrow> cell (h @ xs) a = cell h a"
  by (simp add: cell_def nth_append)

lemma cell_Some_length: "cell h a = Some ob \<Longrightarrow> a < length h \<and> h ! a = ob"
  by (auto simp: cell_def split: if_splits)

lemma heap_ext_refl: "heap_ext tbl h h"
  by (simp add: heap_ext_def)

lemma heap_ext_trans: "heap_ext tbl h h1 \<Longrightarrow> heap_ext tbl h1 h2 \<Longrightarrow> heap_ext tbl h h2"
  by (auto simp: heap_ext_def)

lemma heap_ext_append_update: "heap_ext tbl h ((h @ xs)[tbl := ob])"
  by (auto simp: heap_ext_def nth_append nth_list_update)

lemma heap_ext_append: "heap_ext tbl h (h @ xs)"
  by (auto simp: heap_ext_def nth_append)

lemma heap_ext_cell:
  "heap_ext tbl h h' \<Longrightarrow> cell h a = Some ob \<Longrightarrow> a \<noteq> tbl \<Longrightarrow> cell h' a = Some ob"
  by (auto simp: heap_ext_def cell_def split: if_splits)

lemma attach_ext: "attach tbl testName cg cmp h = Some h1 \<Longrightarrow> heap_ext tbl h h1"
  by (auto simp: attach_def alloc_def Let_def
      intro: heap_ext_append_update [of tbl h "[x, y]" for x y, simplified]
      split: option.splits obj.splits)

lemma compare_step_ext: "compare_step prev tbl entry h = Some h1 \<Longrightarrow> heap_ext tbl h h1"
  by (auto simp: compare_step_def Let_def heap_ext_refl attach_ext
      split: prod.splits option.splits obj.splits looked_up.splits)

lemma compare_loop_ext: "compare_loop prev tbl es h = Some h' \<Longrightarrow> heap_ext tbl h h'"
proof (induction es arbitrary: h)
  case Nil
  then show ?case by (simp add: heap_ext_refl)
next
  case (Cons entry es)
  then obtain h1 where s: "compare_step prev tbl entry h = Some h1"
    and l: "compare_loop prev tbl es h1 = Some h'"
    by (auto split: option.splits)
  from compare_step_ext [OF s] Cons.IH [OF l] show ?case
    by (rule heap_ext_trans)
qed

text \<open>
  Whatever the heap holds, a call that returns has kept every cell that was there,
  and returns a new object with the time stamp and the commit of the first argument.
\<close>

lemma compareGasSnapshots_heap_frame:
  assumes "compareGasSnapshots_heap h current prev = Some (h', r)"
  shows "length h \<le> length h' \<and> (\<forall>a < length h. cell h' a = cell h a) \<and> length h \<le> r \<and>
         (\<exists>ts csha trs trs'. cell h current = Some (SnapshotObj ts csha trs) \<and>
            cell h' r = Some (SnapshotObj ts csha trs'))"
proof -
  from assms obtain ts csha trs ps where
    cur: "cell h current = Some (SnapshotObj ts csha trs)" and tb: "cell h trs = Some (TableObj ps)"
    by (auto simp: compareGasSnapshots_heap_def split: option.splits obj.splits)
  let ?tbl = "length h"
  let ?h2 = "h @ [TableObj ps, SnapshotObj ts csha ?tbl]"
  from assms cur tb have loop: "compare_loop prev ?tbl ps ?h2 = Some h'" and r: "r = Suc (length h)"
    by (auto simp: compareGasSnapshots_heap_def alloc_def Let_def split: option.splits)
  have "heap_ext ?tbl h ?h2" by (rule heap_ext_append)
  with compare_loop_ext [OF loop] have e: "heap_ext ?tbl h h'" and e2: "heap_ext ?tbl ?h2 h'"
    by (auto intro: heap_ext_trans)
  from e have "length h \<le> length h'" and "\<forall>a < length h. cell h' a = cell h a"
    by (auto simp: heap_ext_def cell_def)
  moreover have "cell ?h2 r = Some (SnapshotObj ts csha ?tbl)"
    by (simp add: cell_def r nth_append)
  with e2 have "cell h' r = Some (SnapshotObj ts csha ?tbl)"
    by (rule heap_ext_cell) (simp add: r)
  ultimately show ?thesis using cur r by auto
qed

text \<open>Reading values off a heap that has grown.\<close>

lemma result_at_ext:
  assumes "heap_ext tbl h h'" and "free_or_table h tbl" and "result_at h a = Some t"
  shows "result_at h' a = Some t"
proof -
  from assms(3) obtain g co where a: "cell h a = Some (ResultObj g co)"
    by (auto simp: result_at_def split: option.splits obj.splits)
  with assms(2) have "a \<noteq> tbl" by (auto simp: free_or_table_def)
  with assms(1) a have a': "cell h' a = Some (ResultObj g co)" by (rule_tac heap_ext_cell)
  show ?thesis
  proof (cases co)
    case None
    with a a' assms(3) show ?thesis by (simp add: result_at_def)
  next
    case (Some c)
    with a assms(3) obtain x y z where c: "cell h c = Some (ComparisonObj x y z)"
      by (auto simp: result_at_def split: option.splits obj.splits)
    with assms(2) have "c \<noteq> tbl" by (auto simp: free_or_table_def)
    with assms(1) c have "cell h' c = Some (ComparisonObj x y z)" by (rule_tac heap_ext_cell)
    with a a' c Some assms(3) show ?thesis by (simp add: result_at_def)
  qed
qed

lemma table_at_ext:
  "heap_ext tbl h h' \<Longrightarrow> free_or_table h tbl \<Longrightarrow> table_at h ps = Some T \<Longrightarrow>
     table_at h' ps = Some T"
proof (induction ps arbitrary: T)
  case Nil
  then show ?case by simp
next
  case (Cons e ps)
  obtain k a where e: "e = (k, a)" by (cases e)
  with Cons.prems(3) obtain t T' where t: "result_at h a = Some t" and T': "table_at h ps = Some T'"
    and T: "T = (k, t) # T'"
    by (auto split: option.splits)
  from result_at_ext [OF Cons.prems(1,2) t] Cons.IH [OF Cons.prems(1,2) T'] e T
  show ?case by simp
qed

lemma table_at_lookup:
  "table_at h ps = Some T \<Longrightarrow>
     get_prop T n = (case get_prop ps n of None \<Rightarrow> None | Some a \<Rightarrow> result_at h a) \<and>
     (\<forall>a. get_prop ps n = Some a \<longrightarrow> result_at h a \<noteq> None)"
proof (induction ps arbitrary: T)
  case Nil
  then show ?case by (simp add: get_prop_def)
next
  case (Cons e ps)
  obtain k a where e: "e = (k, a)" by (cases e)
  with Cons.prems obtain t T' where t: "result_at h a = Some t" and T': "table_at h ps = Some T'"
    and T: "T = (k, t) # T'"
    by (auto split: option.splits)
  from Cons.IH [OF T'] e t T show ?case
    by (auto simp: get_prop_def)
qed

lemma table_at_set_prop:
  "table_at h qs = Some T \<Longrightarrow> result_at h a = Some t \<Longrightarrow>
     table_at h (set_prop n a qs) = Some (set_prop n t T)"
proof (induction qs arbitrary: T)
  case Nil
  then show ?case by simp
next
  case (Cons e qs)
  obtain k b where e: "e = (k, b)" by (cases e)
  with Cons.prems(1) obtain u T' where u: "result_at h b = Some u" and T': "table_at h qs = Some T'"
    and T: "T = (k, u) # T'"
    by (auto split: option.splits)
  from Cons.IH [OF T' Cons.prems(2)] e u T T' Cons.prems(2) show ?case
    by auto
qed

lemma result_at_gas: "result_at h a = Some t \<Longrightarrow> \<exists>co. cell h a = Some (ResultObj (gasUsed t) co)"
  by (auto simp: result_at_def split: option.splits obj.splits)

text \<open>
  The assignment at the end of an iteration, on values: the table then holds, under the
  name, the test result with the new comparison.
\<close>

lemma attach_refines:
  assumes "cell h tbl = Some (TableObj qs)" and "table_at h qs = Some T"
  shows "\<exists>h1 qs1. attach tbl n g (ComparisonObj x y z) h = Some h1 \<and>
           cell h1 tbl = Some (TableObj qs1) \<and>
           table_at h1 qs1 =
             Some (set_prop n
                     \<lparr>gasUsed = g,
                      comparison = Some \<lparr>previous = x, change = y, changePercentage = z\<rparr>\<rparr> T)"
proof -
  let ?c = "length h"
  let ?r = "Suc (length h)"
  let ?h2 = "h @ [ComparisonObj x y z, ResultObj g (Some ?c)]"
  let ?h3 = "?h2[tbl := TableObj (set_prop n ?r qs)]"
  from assms(1) have tl: "tbl < length h" by (auto dest: cell_Some_length)
  then have ct: "cell ?h2 tbl = Some (TableObj qs)"
    using assms(1) by (simp add: cell_append)
  have step: "attach tbl n g (ComparisonObj x y z) h = Some ?h3"
    using ct by (simp add: attach_def alloc_def Let_def)
  have ext: "heap_ext tbl h ?h3" by (rule heap_ext_append_update)
  have fot: "free_or_table h tbl" using assms(1) by (simp add: free_or_table_def)
  have c3: "cell ?h3 tbl = Some (TableObj (set_prop n ?r qs))"
    using tl by (simp add: cell_def)
  have "cell ?h3 ?r = Some (ResultObj g (Some ?c))" "cell ?h3 ?c = Some (ComparisonObj x y z)"
    using tl by (simp_all add: cell_def nth_append)
  then have r3: "result_at ?h3 ?r =
      Some \<lparr>gasUsed = g,
            comparison = Some \<lparr>previous = x, change = y, changePercentage = z\<rparr>\<rparr>"
    by (simp add: result_at_def)
  have "table_at ?h3 (set_prop n ?r qs) =
      Some (set_prop n \<lparr>gasUsed = g,
              comparison = Some \<lparr>previous = x, change = y, changePercentage = z\<rparr>\<rparr> T)"
    by (rule table_at_set_prop [OF table_at_ext [OF ext fot assms(2)] r3])
  with step c3 show ?thesis by blast
qed

lemma with_comparison: "t\<lparr>comparison := k\<rparr> = \<lparr>gasUsed = gasUsed t, comparison = k\<rparr>"
  by (cases t) simp

text \<open>The step of the comparator on values, as the fold of \<open>compareGasSnapshots\<close> has it.\<close>

lemma compare_step_refines:
  assumes prev: "cell h prev = Some (SnapshotObj pts psha ptrs)" "cell h ptrs = Some (TableObj pps)"
      "table_at h pps = Some pt"
    and cur: "result_at h a = Some t"
    and tbl: "cell h tbl = Some (TableObj qs)" "table_at h qs = Some T"
  shows "\<exists>h1 qs1. compare_step prev tbl (n, a) h = Some h1 \<and>
           cell h1 tbl = Some (TableObj qs1) \<and>
           table_at h1 qs1 =
             Some (case lookup pt n of
                     Missing \<Rightarrow> T
                   | Inherited \<Rightarrow>
                       set_prop n
                         (t\<lparr>comparison :=
                            Some \<lparr>previous = None, change = Some NaN,
                                  changePercentage = Some NaN\<rparr>\<rparr>)
                         T
                   | Own p \<Rightarrow>
                       set_prop n
                         (t\<lparr>comparison :=
                            Some \<lparr>previous = Some (gasUsed p),
                                  change = Some (round64 (of_int (gasUsed t - gasUsed p))),
                                  changePercentage =
                                    Some (js_times100
                                            (js_div (round64 (of_int (gasUsed t - gasUsed p)))
                                               (gasUsed p)))\<rparr>\<rparr>)
                         T)"
proof -
  from result_at_gas [OF cur] obtain cc where ca: "cell h a = Some (ResultObj (gasUsed t) cc)" by blast
  show ?thesis
  proof (cases "get_prop pps n")
    case None
    with table_at_lookup [OF prev(3), of n] have none: "get_prop pt n = None" by simp
    show ?thesis
    proof (cases "n \<in> set Object_prototype_names")
      case False
      with None none have "lookup pps n = Missing" "lookup pt n = Missing"
        by (simp_all add: lookup_def)
      with prev tbl show ?thesis
        by (simp add: compare_step_def)
    next
      case True
      with None none have l: "lookup pps n = Inherited" "lookup pt n = Inherited"
        by (simp_all add: lookup_def)
      from attach_refines [OF tbl, of n "gasUsed t" None "Some NaN" "Some NaN"]
      obtain h1 qs1 where
        "attach tbl n (gasUsed t) (ComparisonObj None (Some NaN) (Some NaN)) h = Some h1"
        "cell h1 tbl = Some (TableObj qs1)"
        "table_at h1 qs1 =
           Some (set_prop n
                   (t\<lparr>comparison :=
                      Some \<lparr>previous = None, change = Some NaN, changePercentage = Some NaN\<rparr>\<rparr>) T)"
        unfolding with_comparison by blast
      with prev ca l show ?thesis
        by (simp add: compare_step_def)
    qed
  next
    case (Some pa)
    with table_at_lookup [OF prev(3), of n] obtain p where p: "result_at h pa = Some p"
      and ptn: "get_prop pt n = Some p"
      by auto
    from Some ptn have l: "lookup pps n = Own pa" "lookup pt n = Own p"
      by (simp_all add: lookup_def)
    from result_at_gas [OF p] obtain pc where cp: "cell h pa = Some (ResultObj (gasUsed p) pc)" by blast
    let ?chg = "round64 (of_int (gasUsed t - gasUsed p))"
    let ?pct = "js_times100 (js_div ?chg (gasUsed p))"
    from attach_refines [OF tbl, of n "gasUsed t" "Some (gasUsed p)" "Some ?chg" "Some ?pct"]
    obtain h1 qs1 where
      "attach tbl n (gasUsed t) (ComparisonObj (Some (gasUsed p)) (Some ?chg) (Some ?pct)) h = Some h1"
      "cell h1 tbl = Some (TableObj qs1)"
      "table_at h1 qs1 =
         Some (set_prop n
                 (t\<lparr>comparison :=
                    Some \<lparr>previous = Some (gasUsed p), change = Some ?chg,
                          changePercentage = Some ?pct\<rparr>\<rparr>) T)"
      unfolding with_comparison by blast
    with prev ca cp l show ?thesis
      by (simp add: compare_step_def Let_def)
  qed
qed

lemma compare_loop_refines:
  assumes "cell h prev = Some (SnapshotObj pts psha ptrs)" "cell h ptrs = Some (TableObj pps)"
      "table_at h pps = Some pt" "prev \<noteq> tbl" "ptrs \<noteq> tbl"
    and "table_at h es = Some ets"
    and "cell h tbl = Some (TableObj qs)" "table_at h qs = Some T"
  shows "\<exists>h' qs'. compare_loop prev tbl es h = Some h' \<and>
           cell h' tbl = Some (TableObj qs') \<and>
           table_at h' qs' =
             Some (testResults (fold (\<lambda>(testName, current) result.
                 case lookup pt testName of
                   Missing \<Rightarrow> result
                 | Inherited \<Rightarrow>
                     result\<lparr>testResults :=
                       set_prop testName
                         (current\<lparr>comparison :=
                            Some \<lparr>previous = None, change = Some NaN,
                                  changePercentage = Some NaN\<rparr>\<rparr>)
                         (testResults result)\<rparr>
                 | Own prev \<Rightarrow>
                     (let chg = round64 (of_int (gasUsed current - gasUsed prev));
                          pct = js_times100 (js_div chg (gasUsed prev))
                      in result\<lparr>testResults :=
                           set_prop testName
                             (current\<lparr>comparison :=
                                Some \<lparr>previous = Some (gasUsed prev),
                                      change = Some chg,
                                      changePercentage = Some pct\<rparr>\<rparr>)
                             (testResults result)\<rparr>))
                      ets (R\<lparr>testResults := T\<rparr>)))"
  using assms
proof (induction es arbitrary: h qs T ets)
  case Nil
  then show ?case by auto
next
  case (Cons e es)
  obtain n a where e: "e = (n, a)" by (cases e)
  with Cons.prems(6) obtain t ets' where t: "result_at h a = Some t"
    and ets': "table_at h es = Some ets'" and ets: "ets = (n, t) # ets'"
    by (auto split: option.splits)
  let ?T1 = "case lookup pt n of
                     Missing \<Rightarrow> T
                   | Inherited \<Rightarrow>
                       set_prop n
                         (t\<lparr>comparison :=
                            Some \<lparr>previous = None, change = Some NaN,
                                  changePercentage = Some NaN\<rparr>\<rparr>)
                         T
                   | Own p \<Rightarrow>
                       set_prop n
                         (t\<lparr>comparison :=
                            Some \<lparr>previous = Some (gasUsed p),
                                  change = Some (round64 (of_int (gasUsed t - gasUsed p))),
                                  changePercentage =
                                    Some (js_times100
                                            (js_div (round64 (of_int (gasUsed t - gasUsed p)))
                                               (gasUsed p)))\<rparr>\<rparr>)
                         T"
  from compare_step_refines [OF Cons.prems(1,2,3) t Cons.prems(7,8), of n]
  obtain h1 qs1 where step: "compare_step prev tbl (n, a) h = Some h1"
    and c1: "cell h1 tbl = Some (TableObj qs1)" and t1: "table_at h1 qs1 = Some ?T1"
    by blast
  have ext: "heap_ext tbl h h1" by (rule compare_step_ext [OF step])
  have fot: "free_or_table h tbl" using Cons.prems(7) by (simp add: free_or_table_def)
  have p1: "cell h1 prev = Some (SnapshotObj pts psha ptrs)"
    by (rule heap_ext_cell [OF ext Cons.prems(1) Cons.prems(4)])
  have p2: "cell h1 ptrs = Some (TableObj pps)"
    by (rule heap_ext_cell [OF ext Cons.prems(2) Cons.prems(5)])
  have p3: "table_at h1 pps = Some pt"
    by (rule table_at_ext [OF ext fot Cons.prems(3)])
  have e1: "table_at h1 es = Some ets'"
    by (rule table_at_ext [OF ext fot ets'])
  from Cons.IH [OF p1 p2 p3 Cons.prems(4,5) e1 c1 t1]
  obtain h' qs' where loop: "compare_loop prev tbl es h1 = Some h'"
    and c': "cell h' tbl = Some (TableObj qs')"
    and t': "table_at h' qs' =
             Some (testResults (fold (\<lambda>(testName, current) result.
                 case lookup pt testName of
                   Missing \<Rightarrow> result
                 | Inherited \<Rightarrow>
                     result\<lparr>testResults :=
                       set_prop testName
                         (current\<lparr>comparison :=
                            Some \<lparr>previous = None, change = Some NaN,
                                  changePercentage = Some NaN\<rparr>\<rparr>)
                         (testResults result)\<rparr>
                 | Own prev \<Rightarrow>
                     (let chg = round64 (of_int (gasUsed current - gasUsed prev));
                          pct = js_times100 (js_div chg (gasUsed prev))
                      in result\<lparr>testResults :=
                           set_prop testName
                             (current\<lparr>comparison :=
                                Some \<lparr>previous = Some (gasUsed prev),
                                      change = Some chg,
                                      changePercentage = Some pct\<rparr>\<rparr>)
                             (testResults result)\<rparr>))
                      ets' (R\<lparr>testResults := ?T1\<rparr>)))"
    by blast
  have one: "(\<lambda>(testName, current) result.
                 case lookup pt testName of
                   Missing \<Rightarrow> result
                 | Inherited \<Rightarrow>
                     result\<lparr>testResults :=
                       set_prop testName
                         (current\<lparr>comparison :=
                            Some \<lparr>previous = None, change = Some NaN,
                                  changePercentage = Some NaN\<rparr>\<rparr>)
                         (testResults result)\<rparr>
                 | Own prev \<Rightarrow>
                     (let chg = round64 (of_int (gasUsed current - gasUsed prev));
                          pct = js_times100 (js_div chg (gasUsed prev))
                      in result\<lparr>testResults :=
                           set_prop testName
                             (current\<lparr>comparison :=
                                Some \<lparr>previous = Some (gasUsed prev),
                                      change = Some chg,
                                      changePercentage = Some pct\<rparr>\<rparr>)
                             (testResults result)\<rparr>)) (n, t) (R\<lparr>testResults := T\<rparr>) =
      R\<lparr>testResults := ?T1\<rparr>"
    by (simp add: Let_def split: looked_up.splits)
  from step loop e have "compare_loop prev tbl (e # es) h = Some h'" by simp
  moreover from t' one ets have "table_at h' qs' =
             Some (testResults (fold (\<lambda>(testName, current) result.
                 case lookup pt testName of
                   Missing \<Rightarrow> result
                 | Inherited \<Rightarrow>
                     result\<lparr>testResults :=
                       set_prop testName
                         (current\<lparr>comparison :=
                            Some \<lparr>previous = None, change = Some NaN,
                                  changePercentage = Some NaN\<rparr>\<rparr>)
                         (testResults result)\<rparr>
                 | Own prev \<Rightarrow>
                     (let chg = round64 (of_int (gasUsed current - gasUsed prev));
                          pct = js_times100 (js_div chg (gasUsed prev))
                      in result\<lparr>testResults :=
                           set_prop testName
                             (current\<lparr>comparison :=
                                Some \<lparr>previous = Some (gasUsed prev),
                                      change = Some chg,
                                      changePercentage = Some pct\<rparr>\<rparr>)
                             (testResults result)\<rparr>))
                      ets (R\<lparr>testResults := T\<rparr>)))"
    by simp
  ultimately show ?case using c' by blast
qed

lemma compare_fold_meta:
  "timestamp (fold (\<lambda>(testName, current) result.
                 case lookup pt testName of
                   Missing \<Rightarrow> result
                 | Inherited \<Rightarrow>
                     result\<lparr>testResults :=
                       set_prop testName
                         (current\<lparr>comparison :=
                            Some \<lparr>previous = None, change = Some NaN,
                                  changePercentage = Some NaN\<rparr>\<rparr>)
                         (testResults result)\<rparr>
                 | Own prev \<Rightarrow>
                     (let chg = round64 (of_int (gasUsed current - gasUsed prev));
                          pct = js_times100 (js_div chg (gasUsed prev))
                      in result\<lparr>testResults :=
                           set_prop testName
                             (current\<lparr>comparison :=
                                Some \<lparr>previous = Some (gasUsed prev),
                                      change = Some chg,
                                      changePercentage = Some pct\<rparr>\<rparr>)
                             (testResults result)\<rparr>)) es r) = timestamp r \<and>
   commitSha (fold (\<lambda>(testName, current) result.
                 case lookup pt testName of
                   Missing \<Rightarrow> result
                 | Inherited \<Rightarrow>
                     result\<lparr>testResults :=
                       set_prop testName
                         (current\<lparr>comparison :=
                            Some \<lparr>previous = None, change = Some NaN,
                                  changePercentage = Some NaN\<rparr>\<rparr>)
                         (testResults result)\<rparr>
                 | Own prev \<Rightarrow>
                     (let chg = round64 (of_int (gasUsed current - gasUsed prev));
                          pct = js_times100 (js_div chg (gasUsed prev))
                      in result\<lparr>testResults :=
                           set_prop testName
                             (current\<lparr>comparison :=
                                Some \<lparr>previous = Some (gasUsed prev),
                                      change = Some chg,
                                      changePercentage = Some pct\<rparr>\<rparr>)
                             (testResults result)\<rparr>)) es r) = commitSha r"
  by (induction es arbitrary: r) (auto simp: Let_def split: looked_up.splits)

lemma compareGasSnapshots_meta:
  "timestamp (compareGasSnapshots c p) = timestamp c \<and>
   commitSha (compareGasSnapshots c p) = commitSha c"
  using compare_fold_meta [of "testResults p" "testResults c" c]
  by (simp add: compareGasSnapshots_def)

lemma snapshot_at_ext:
  assumes "heap_ext tbl h h'" and "length h \<le> tbl" and "snapshot_at h a = Some c"
  shows "snapshot_at h' a = Some c"
proof -
  from assms(3) obtain ts csha trs ps T where a: "cell h a = Some (SnapshotObj ts csha trs)"
    and tr: "cell h trs = Some (TableObj ps)" and T: "table_at h ps = Some T"
    and c: "c = \<lparr>timestamp = ts, commitSha = csha, testResults = T\<rparr>"
    by (auto simp: snapshot_at_def split: option.splits obj.splits)
  from assms(2) have fot: "free_or_table h tbl" by (simp add: free_or_table_def cell_def)
  from a tr assms(2) have "a \<noteq> tbl" "trs \<noteq> tbl" by (auto dest: cell_Some_length)
  with a tr assms(1) have "cell h' a = Some (SnapshotObj ts csha trs)" "cell h' trs = Some (TableObj ps)"
    by (auto intro: heap_ext_cell)
  with table_at_ext [OF assms(1) fot T] c show ?thesis
    by (simp add: snapshot_at_def)
qed

text \<open>
  On two snapshots that the heap holds, the call returns, leaves both as they were and
  returns the snapshot that \<open>compareGasSnapshots\<close> computes on the values.
\<close>

lemma compareGasSnapshots_heap_correct:
  assumes "snapshot_at h current = Some c" and "snapshot_at h prev = Some p"
  shows "\<exists>h' r. compareGasSnapshots_heap h current prev = Some (h', r) \<and>
           snapshot_at h' current = Some c \<and> snapshot_at h' prev = Some p \<and>
           snapshot_at h' r = Some (compareGasSnapshots c p)"
proof -
  from assms(1) obtain ts csha trs ps where cur: "cell h current = Some (SnapshotObj ts csha trs)"
    and tr: "cell h trs = Some (TableObj ps)" and T: "table_at h ps = Some (testResults c)"
    and cts: "timestamp c = ts" "commitSha c = csha"
    by (auto simp: snapshot_at_def split: option.splits obj.splits)
  from assms(2) obtain pts psha ptrs pps where prv: "cell h prev = Some (SnapshotObj pts psha ptrs)"
    and ptr: "cell h ptrs = Some (TableObj pps)" and PT: "table_at h pps = Some (testResults p)"
    by (auto simp: snapshot_at_def split: option.splits obj.splits)
  let ?tbl = "length h"
  let ?r = "Suc (length h)"
  let ?h2 = "h @ [TableObj ps, SnapshotObj ts csha ?tbl]"
  have ext2: "heap_ext ?tbl h ?h2" by (rule heap_ext_append)
  have fot: "free_or_table h ?tbl" by (simp add: free_or_table_def cell_def)
  from prv ptr have ne: "prev \<noteq> ?tbl" "ptrs \<noteq> ?tbl" by (auto dest: cell_Some_length)
  have q1: "cell ?h2 prev = Some (SnapshotObj pts psha ptrs)"
    by (rule heap_ext_cell [OF ext2 prv ne(1)])
  have q2: "cell ?h2 ptrs = Some (TableObj pps)"
    by (rule heap_ext_cell [OF ext2 ptr ne(2)])
  have q3: "table_at ?h2 pps = Some (testResults p)"
    by (rule table_at_ext [OF ext2 fot PT])
  have q4: "table_at ?h2 ps = Some (testResults c)"
    by (rule table_at_ext [OF ext2 fot T])
  have q5: "cell ?h2 ?tbl = Some (TableObj ps)"
    by (simp add: cell_def nth_append)
  from compare_loop_refines [OF q1 q2 q3 ne q4 q5 q4, of c]
  obtain h' qs' where loop: "compare_loop prev ?tbl ps ?h2 = Some h'"
    and c': "cell h' ?tbl = Some (TableObj qs')"
    and t': "table_at h' qs' = Some (testResults (compareGasSnapshots c p))"
    by (auto simp: compareGasSnapshots_def)
  from cur tr loop have run: "compareGasSnapshots_heap h current prev = Some (h', ?r)"
    by (simp add: compareGasSnapshots_heap_def alloc_def Let_def)
  have ext': "heap_ext ?tbl ?h2 h'" by (rule compare_loop_ext [OF loop])
  with ext2 have ext: "heap_ext ?tbl h h'" by (rule heap_ext_trans)
  have "cell ?h2 ?r = Some (SnapshotObj ts csha ?tbl)"
    by (simp add: cell_def nth_append)
  with ext' have r': "cell h' ?r = Some (SnapshotObj ts csha ?tbl)"
    by (rule heap_ext_cell) simp
  have "compareGasSnapshots c p =
      \<lparr>timestamp = ts, commitSha = csha, testResults = testResults (compareGasSnapshots c p)\<rparr>"
    using compareGasSnapshots_meta [of c p] cts by (cases "compareGasSnapshots c p") simp
  with r' c' t' have res: "snapshot_at h' ?r = Some (compareGasSnapshots c p)"
    by (simp add: snapshot_at_def)
  from snapshot_at_ext [OF ext _ assms(1)] snapshot_at_ext [OF ext _ assms(2)] run res
  show ?thesis by simp
qed

text \<open>
  Claim C10. A call that returns has kept every cell the heap had, so both arguments,
  their tables and every test result in them are what they were, and the object it
  returns is a new one with the time stamp and the commit of the current snapshot. On
  two snapshots that the heap holds the call does return: both arguments then read as
  before, and the returned object reads as the snapshot that \<open>compareGasSnapshots\<close>
  computes, whose time stamp and commit are those of the current snapshot.
\<close>

theorem compareGasSnapshots_heap_unchanged:
  "(compareGasSnapshots_heap h current prev = Some (h', r) \<longrightarrow>
      length h \<le> length h' \<and> (\<forall>a < length h. cell h' a = cell h a) \<and> length h \<le> r \<and>
      (\<exists>ts csha trs trs'. cell h current = Some (SnapshotObj ts csha trs) \<and>
         cell h' r = Some (SnapshotObj ts csha trs'))) \<and>
   (snapshot_at h current = Some c \<and> snapshot_at h prev = Some p \<longrightarrow>
      (\<exists>h2 r2. compareGasSnapshots_heap h current prev = Some (h2, r2) \<and>
         snapshot_at h2 current = Some c \<and> snapshot_at h2 prev = Some p \<and>
         snapshot_at h2 r2 = Some (compareGasSnapshots c p) \<and>
         timestamp (compareGasSnapshots c p) = timestamp c \<and>
         commitSha (compareGasSnapshots c p) = commitSha c))"
proof (rule conjI [OF impI impI])
  assume "compareGasSnapshots_heap h current prev = Some (h', r)"
  then show "length h \<le> length h' \<and> (\<forall>a < length h. cell h' a = cell h a) \<and> length h \<le> r \<and>
      (\<exists>ts csha trs trs'. cell h current = Some (SnapshotObj ts csha trs) \<and>
         cell h' r = Some (SnapshotObj ts csha trs'))"
    by (rule compareGasSnapshots_heap_frame)
next
  assume "snapshot_at h current = Some c \<and> snapshot_at h prev = Some p"
  then have "\<exists>h2 r2. compareGasSnapshots_heap h current prev = Some (h2, r2) \<and>
         snapshot_at h2 current = Some c \<and> snapshot_at h2 prev = Some p \<and>
         snapshot_at h2 r2 = Some (compareGasSnapshots c p)"
    by (auto intro: compareGasSnapshots_heap_correct)
  with compareGasSnapshots_meta [of c p]
  show "\<exists>h2 r2. compareGasSnapshots_heap h current prev = Some (h2, r2) \<and>
         snapshot_at h2 current = Some c \<and> snapshot_at h2 prev = Some p \<and>
         snapshot_at h2 r2 = Some (compareGasSnapshots c p) \<and>
         timestamp (compareGasSnapshots c p) = timestamp c \<and>
         commitSha (compareGasSnapshots c p) = commitSha c"
    by blast
qed

lemmas heap_eval = snapshot_at_def result_at_def cell_def example_heap_def snapshot_now_def
  snapshot_before_def plain_def js_def

theorem compareGasSnapshots_heap_unchanged_witness:
  "\<exists>h2 r2. compareGasSnapshots_heap example_heap 4 0 = Some (h2, r2) \<and>
     length example_heap \<le> length h2 \<and>
     cell h2 0 = cell example_heap 0 \<and> cell h2 4 = cell example_heap 4 \<and>
     cell h2 6 = cell example_heap 6 \<and>
     snapshot_at h2 4 = Some snapshot_now \<and> snapshot_at h2 0 = Some snapshot_before \<and>
     snapshot_at h2 r2 = Some (compareGasSnapshots snapshot_now snapshot_before)"
proof -
  have a: "snapshot_at example_heap 4 = Some snapshot_now"
    by (simp add: heap_eval)
  have b: "snapshot_at example_heap 0 = Some snapshot_before"
    by (simp add: heap_eval)
  from compareGasSnapshots_heap_unchanged [of example_heap 4 0 _ _ snapshot_now snapshot_before] a b
  obtain h2 r2 where run: "compareGasSnapshots_heap example_heap 4 0 = Some (h2, r2)"
    and vals: "snapshot_at h2 4 = Some snapshot_now" "snapshot_at h2 0 = Some snapshot_before"
      "snapshot_at h2 r2 = Some (compareGasSnapshots snapshot_now snapshot_before)"
    by blast
  from compareGasSnapshots_heap_unchanged [of example_heap 4 0 h2 r2 snapshot_now snapshot_before] run
  have "length example_heap \<le> length h2" and fr: "\<forall>a < length example_heap. cell h2 a = cell example_heap a"
    by blast+
  moreover have "0 < length example_heap" "4 < length example_heap" "6 < length example_heap"
    by (simp_all add: example_heap_def)
  ultimately show ?thesis using run vals by blast
qed

end
